theory Spec2Isabelle
  imports Main
begin

section \<open>The slideshow controller of slideshow.js\<close>

text \<open>
  The class \<open>Slideshow\<close> of \<open>src/slideshow.js\<close> drives CSS classes on a fixed array of
  DOM elements, and reacts to two asynchronous sources: timers (\<open>setTimeout\<close>,
  \<open>setInterval\<close>) and the \<open>transitionend\<close> event of an item. The embedding below is a
  state-passing model:
  \<^item> the object's fields, the class lists and listeners of its elements, the table of
    pending timers and the local variables that closures capture and assign later are
    fields of one record \<open>state\<close>;
  \<^item> every function expression of the source is a constructor of the datatype
    \<open>closure\<close>, holding the values it captures; \<open>call\<close> runs its body;
  \<^item> a \<open>TypeError\<close> (a property read on \<open>undefined\<close> or \<open>null\<close>) is the outcome
    \<open>Throw\<close>, which keeps the state reached when it was raised;
  \<^item> the environment is the pair of steps \<open>fireTimer\<close> and \<open>transitionend\<close>.
  JavaScript numbers that index arrays are \<open>int\<close> (the selected index may be \<open>-1\<close>),
  timer handles are \<open>nat\<close>. An element is named by its position in \<open>items\<close>: the
  array is never reassigned and its elements are distinct children of one container.
  Class names are assumed to be valid tokens (non-empty, no white space), on which
  \<open>classList.add\<close> and \<open>classList.remove\<close> do not raise.
\<close>

subsection \<open>Class lists\<close>

text \<open>A \<open>DOMTokenList\<close>: an ordered set of tokens with \<open>contains\<close>, \<open>add\<close>, \<open>remove\<close>.\<close>

definition classList_contains :: "string list \<Rightarrow> string \<Rightarrow> bool" where
  "classList_contains cl c = (c \<in> set cl)"

definition classList_add :: "string list \<Rightarrow> string \<Rightarrow> string list" where
  "classList_add cl c = (if c \<in> set cl then cl else cl @ [c])"

definition classList_remove :: "string list \<Rightarrow> string \<Rightarrow> string list" where
  "classList_remove cl c = removeAll c cl"

text \<open>A class name read from a field that may hold \<open>null\<close>: JavaScript turns \<open>null\<close>
  into the token \<open>null\<close> when it is passed where a string is expected.\<close>

definition tokenOf :: "string option \<Rightarrow> string" where
  "tokenOf c = (case c of None \<Rightarrow> ''null'' | Some t \<Rightarrow> t)"

subsection \<open>Closures, elements, timers, state\<close>

datatype error = TypeError

text \<open>
  One constructor per function expression of the source, with its captured values.
  An element reference that may be \<open>undefined\<close> is a \<open>nat option\<close>; a captured variable
  that is assigned after the closure was created is the index of a cell of \<open>vars\<close>.
\<close>

datatype closure =
    DebounceRelease
      \<comment> \<open>\<open>debounce\<close>, line 152\<close>
  | ForwardSelectedDone bool int nat
      \<comment> \<open>\<open>transitionForward\<close>, line 220: \<open>looping\<close>, \<open>nextIndex\<close>, cell of \<open>selectedLoopTimeout\<close>\<close>
  | ForwardLoopBackup int
      \<comment> \<open>\<open>transitionForward\<close>, line 231: \<open>nextIndex\<close>\<close>
  | BackwardSelectedDone bool int
      \<comment> \<open>\<open>transitionBackward\<close>, line 296: \<open>looping\<close>, \<open>prevIndex\<close>\<close>
  | ToPrevStart int int "nat option"
      \<comment> \<open>\<open>transitionTo\<close>, line 357: \<open>selectedIndex\<close>, \<open>distance\<close>, \<open>target\<close>\<close>
  | ToPrevFinal "nat option"
      \<comment> \<open>\<open>transitionTo\<close>, line 359: \<open>target\<close>\<close>
  | ToNextStart int int "nat option"
      \<comment> \<open>\<open>transitionTo\<close>, line 378\<close>
  | ToNextFinal "nat option"
      \<comment> \<open>\<open>transitionTo\<close>, line 380\<close>
  | PrevLoopStep int int int closure
      \<comment> \<open>\<open>transitionToPrevLoop\<close>, line 408: \<open>selectedIndex\<close>, \<open>distance\<close>, \<open>i\<close>, \<open>callback\<close>\<close>
  | NextLoopStep int int int closure
      \<comment> \<open>\<open>transitionToNextLoop\<close>, line 430\<close>
  | AutoTick
      \<comment> \<open>\<open>startAutoTransition\<close>, line 446\<close>
  | AutoResume
      \<comment> \<open>\<open>stopAutoTransition\<close>, line 461\<close>
  | OnTransitionEnd nat bool "closure option" nat
      \<comment> \<open>\<open>markTransitioning\<close>, line 550: \<open>item\<close>, \<open>endDebounce\<close>, \<open>callback\<close>, cell of \<open>backupTimeout\<close>\<close>
  | BackupTimeout "closure option" nat
      \<comment> \<open>\<open>markTransitioning\<close>, line 578: \<open>callback\<close>, cell of \<open>backupTimeout\<close>\<close>

record element =
  classList :: "string list"
  listeners :: "closure list"

record indicator =
  indicatorClassList :: "string list"
  dataIndex :: "int option"

datatype timer = Timeout closure int | Interval closure int

fun task :: "timer \<Rightarrow> closure" where
  "task (Timeout c d) = c"
| "task (Interval c d) = c"

fun delay :: "timer \<Rightarrow> int" where
  "delay (Timeout c d) = d"
| "delay (Interval c d) = d"

record state =
  items :: "element list"
  indicators :: "indicator list option"
  loop :: bool
  shouldDebounce :: bool
  shouldAutoTransition :: bool
  autoTransitionTime :: int
  autoTransitionDelay :: int
  selectedIndicatorClass :: string
  prevItemClass :: string
  selectedItemClass :: string
  nextItemClass :: string
  transitioningClass :: "string option"
  notransitionClass :: "string option"
  transitioning :: bool
  transitioningTimeout :: "nat option"
  autoTransitionDirection :: int
  autoTransitionInterval :: "nat option"
  autoTransitionTimeout :: "nat option"
  timers :: "nat \<Rightarrow> timer option"
  nextTimer :: nat
  vars :: "nat option list"
  console :: "string list"
  uncaught :: "error list"

datatype outcome = Done state | Throw error state

fun andThen :: "outcome \<Rightarrow> (state \<Rightarrow> outcome) \<Rightarrow> outcome" where
  "andThen (Done s) f = f s"
| "andThen (Throw e s) f = Throw e s"

fun chain :: "(state \<Rightarrow> outcome) list \<Rightarrow> state \<Rightarrow> outcome" where
  "chain [] s = Done s"
| "chain (f # fs) s = andThen (f s) (chain fs)"

fun stateOf :: "outcome \<Rightarrow> state" where
  "stateOf (Done s) = s"
| "stateOf (Throw e s) = s"


subsection \<open>The environment's primitives\<close>

definition setTimeout :: "closure \<Rightarrow> int \<Rightarrow> state \<Rightarrow> nat \<times> state" where
  "setTimeout c d s =
     (nextTimer s,
      s\<lparr>timers := (timers s)(nextTimer s \<mapsto> Timeout c d), nextTimer := Suc (nextTimer s)\<rparr>)"

definition setInterval :: "closure \<Rightarrow> int \<Rightarrow> state \<Rightarrow> nat \<times> state" where
  "setInterval c d s =
     (nextTimer s,
      s\<lparr>timers := (timers s)(nextTimer s \<mapsto> Interval c d), nextTimer := Suc (nextTimer s)\<rparr>)"

text \<open>\<open>clearTimeout\<close> and \<open>clearInterval\<close> share one pool of handles; clearing a handle
  that is not pending does nothing.\<close>

definition clearTimeout :: "nat \<Rightarrow> state \<Rightarrow> state" where
  "clearTimeout h s = s\<lparr>timers := (timers s)(h := None)\<rparr>"

definition clearInterval :: "nat \<Rightarrow> state \<Rightarrow> state" where
  "clearInterval h s = s\<lparr>timers := (timers s)(h := None)\<rparr>"

text \<open>A local variable captured by a closure: declared (\<open>undefined\<close>), assigned, read.\<close>

definition newVar :: "state \<Rightarrow> nat \<times> state" where
  "newVar s = (length (vars s), s\<lparr>vars := vars s @ [None]\<rparr>)"

definition setVar :: "nat \<Rightarrow> nat option \<Rightarrow> state \<Rightarrow> state" where
  "setVar v x s = s\<lparr>vars := (vars s)[v := x]\<rparr>"

definition getVar :: "nat \<Rightarrow> state \<Rightarrow> nat option" where
  "getVar v s = (if v < length (vars s) then vars s ! v else None)"

text \<open>\<open>this.items[k]\<close>: \<open>undefined\<close> outside the array.\<close>

definition itemAt :: "state \<Rightarrow> int \<Rightarrow> nat option" where
  "itemAt s k = (if 0 \<le> k \<and> k < int (length (items s)) then Some (nat k) else None)"

definition updItem :: "nat \<Rightarrow> (element \<Rightarrow> element) \<Rightarrow> state \<Rightarrow> state" where
  "updItem k f s = s\<lparr>items := (items s)[k := f (items s ! k)]\<rparr>"

definition elAdd :: "string \<Rightarrow> element \<Rightarrow> element" where
  "elAdd c e = e\<lparr>classList := classList_add (classList e) c\<rparr>"

definition elRemove :: "string \<Rightarrow> element \<Rightarrow> element" where
  "elRemove c e = e\<lparr>classList := classList_remove (classList e) c\<rparr>"

text \<open>\<open>x.classList.add(c)\<close> and \<open>x.classList.remove(c)\<close> on a reference \<open>x\<close> that may be
  \<open>undefined\<close>.\<close>

definition refAdd :: "nat option \<Rightarrow> string \<Rightarrow> state \<Rightarrow> outcome" where
  "refAdd x c s = (case x of None \<Rightarrow> Throw TypeError s | Some k \<Rightarrow> Done (updItem k (elAdd c) s))"

definition refRemove :: "nat option \<Rightarrow> string \<Rightarrow> state \<Rightarrow> outcome" where
  "refRemove x c s = (case x of None \<Rightarrow> Throw TypeError s | Some k \<Rightarrow> Done (updItem k (elRemove c) s))"

definition addEventListener :: "nat \<Rightarrow> closure \<Rightarrow> state \<Rightarrow> state" where
  "addEventListener k l s = updItem k (\<lambda>e. e\<lparr>listeners := listeners e @ [l]\<rparr>) s"

definition removeEventListener :: "nat \<Rightarrow> closure \<Rightarrow> state \<Rightarrow> state" where
  "removeEventListener k l s = updItem k (\<lambda>e. e\<lparr>listeners := removeAll l (listeners e)\<rparr>) s"

subsection \<open>Indicators and the selected index\<close>

primrec mapIndex :: "nat \<Rightarrow> (nat \<Rightarrow> 'a \<Rightarrow> 'a) \<Rightarrow> 'a list \<Rightarrow> 'a list" where
  "mapIndex i f [] = []"
| "mapIndex i f (x # xs) = f i x # mapIndex (Suc i) f xs"

definition initiateIndicators :: "state \<Rightarrow> state" where
  "initiateIndicators s =
     (case indicators s of
        None \<Rightarrow> s
      | Some inds \<Rightarrow>
          s\<lparr>indicators := Some (mapIndex 0 (\<lambda>i ind. ind\<lparr>dataIndex := Some (int i)\<rparr>) inds)\<rparr>)"

definition updateIndicator :: "string \<Rightarrow> int \<Rightarrow> nat \<Rightarrow> indicator \<Rightarrow> indicator" where
  "updateIndicator c selectedIndex i ind =
     (if int i = selectedIndex
      then ind\<lparr>indicatorClassList := classList_add (indicatorClassList ind) c\<rparr>
      else if classList_contains (indicatorClassList ind) c
      then ind\<lparr>indicatorClassList := classList_remove (indicatorClassList ind) c\<rparr>
      else ind)"

text \<open>\<open>updateIndicators\<close> reads \<open>this.indicators.length\<close> with no check for \<open>null\<close>.\<close>

definition updateIndicators :: "int \<Rightarrow> state \<Rightarrow> outcome" where
  "updateIndicators selectedIndex s =
     (case indicators s of
        None \<Rightarrow> Throw TypeError s
      | Some inds \<Rightarrow>
          Done (s\<lparr>indicators :=
                  Some (mapIndex 0 (updateIndicator (selectedIndicatorClass s) selectedIndex) inds)\<rparr>))"

primrec firstWithClass :: "string \<Rightarrow> nat \<Rightarrow> element list \<Rightarrow> int" where
  "firstWithClass c i [] = -1"
| "firstWithClass c i (e # es) =
     (if classList_contains (classList e) c then int i else firstWithClass c (Suc i) es)"

definition getSelectedIndex :: "state \<Rightarrow> int" where
  "getSelectedIndex s = firstWithClass (selectedItemClass s) 0 (items s)"

definition isAtFront :: "state \<Rightarrow> bool" where
  "isAtFront s = (getSelectedIndex s = 0)"

definition isAtEnd :: "state \<Rightarrow> bool" where
  "isAtEnd s = (getSelectedIndex s = int (length (items s)) - 1)"

subsection \<open>Debounce\<close>

definition debounce :: "state \<Rightarrow> bool \<times> state" where
  "debounce s =
     (if shouldDebounce s then
        if transitioning s then (True, s)
        else
          let s = s\<lparr>transitioning := True\<rparr>;
              s = (case transitioningTimeout s of None \<Rightarrow> s | Some h \<Rightarrow> clearTimeout h s);
              (h, s) = setTimeout DebounceRelease 3000 s
          in (False, s\<lparr>transitioningTimeout := Some h\<rparr>)
      else (False, s))"

definition endDebounce :: "state \<Rightarrow> state" where
  "endDebounce s =
     (if shouldDebounce s then
        let s = (case transitioningTimeout s of None \<Rightarrow> s | Some h \<Rightarrow> clearTimeout h s)
        in s\<lparr>transitioning := False\<rparr>
      else s)"

subsection \<open>Auto transition timers\<close>

definition startAutoTransition :: "state \<Rightarrow> state" where
  "startAutoTransition s =
     (let s = (case autoTransitionInterval s of
                 None \<Rightarrow> s
               | Some h \<Rightarrow> (clearInterval h s)\<lparr>autoTransitionInterval := None\<rparr>);
          (h, s) = setInterval AutoTick (autoTransitionTime s) s
      in s\<lparr>autoTransitionInterval := Some h\<rparr>)"

definition stopAutoTransition :: "state \<Rightarrow> state" where
  "stopAutoTransition s =
     (let s = (case autoTransitionInterval s of
                 None \<Rightarrow> s
               | Some h \<Rightarrow> (clearInterval h s)\<lparr>autoTransitionInterval := None\<rparr>);
          s = (case autoTransitionTimeout s of
                 None \<Rightarrow> s
               | Some h \<Rightarrow> (clearTimeout h s)\<lparr>autoTransitionTimeout := None\<rparr>);
          (h, s) = setTimeout AutoResume (autoTransitionDelay s) s
      in s\<lparr>autoTransitionTimeout := Some h\<rparr>)"

subsection \<open>Positions and the transition tracker\<close>

definition recalculateItem :: "state \<Rightarrow> int \<Rightarrow> bool \<Rightarrow> nat \<Rightarrow> element \<Rightarrow> element" where
  "recalculateItem s selectedIndex shouldFlipPositions i e =
     (if int i = selectedIndex then e
      else
        let e = (case notransitionClass s of None \<Rightarrow> e | Some nt \<Rightarrow> elAdd nt e);
            e = (if shouldFlipPositions then
                   if int i > selectedIndex
                   then elAdd (prevItemClass s) (elRemove (nextItemClass s) e)
                   else elAdd (nextItemClass s) (elRemove (prevItemClass s) e)
                 else
                   if int i < selectedIndex
                   then elAdd (prevItemClass s) (elRemove (nextItemClass s) e)
                   else elAdd (nextItemClass s) (elRemove (prevItemClass s) e))
        in (case notransitionClass s of None \<Rightarrow> e | Some nt \<Rightarrow> elRemove nt e))"

definition reclauclatePositions :: "int \<Rightarrow> bool \<Rightarrow> state \<Rightarrow> state" where
  "reclauclatePositions selectedIndex shouldFlipPositions s =
     s\<lparr>items := mapIndex 0 (recalculateItem s selectedIndex shouldFlipPositions) (items s)\<rparr>"

definition markTransitioning :: "nat option \<Rightarrow> bool \<Rightarrow> closure option \<Rightarrow> state \<Rightarrow> outcome" where
  "markTransitioning item endsDebounce callback s =
     (case transitioningClass s of
        None \<Rightarrow> Done s
      | Some tc \<Rightarrow>
          let (backupTimeout, s) = newVar s in
          (case item of
             None \<Rightarrow> Throw TypeError s
           | Some k \<Rightarrow>
               let s = addEventListener k (OnTransitionEnd k endsDebounce callback backupTimeout) s;
                   (h, s) = setTimeout (BackupTimeout callback backupTimeout) 3000 s;
                   s = setVar backupTimeout (Some h) s
               in Done (updItem k (elAdd tc) s)))"

definition resetItem :: "string \<Rightarrow> element \<Rightarrow> element" where
  "resetItem tc e = (if classList_contains (classList e) tc then elRemove tc e else e)"

definition resetAllTransitioning :: "state \<Rightarrow> state" where
  "resetAllTransitioning s =
     (case transitioningClass s of
        None \<Rightarrow> s
      | Some tc \<Rightarrow> s\<lparr>items := map (resetItem tc) (items s)\<rparr>)"

text \<open>The release of the debounce flag that both completion paths of
  \<open>markTransitioning\<close> contain (lines 565-568 and 582-585).\<close>

definition releaseDebounce :: "state \<Rightarrow> state" where
  "releaseDebounce s =
     (case transitioningTimeout s of
        None \<Rightarrow> s
      | Some h \<Rightarrow> if shouldDebounce s then clearTimeout h (s\<lparr>transitioning := False\<rparr>) else s)"

subsection \<open>Forward and backward\<close>

definition transitionForward :: "bool \<Rightarrow> state \<Rightarrow> outcome" where
  "transitionForward auto s0 =
     (case debounce s0 of
        (True, s) \<Rightarrow> Done s
      | (False, s) \<Rightarrow>
          let s = resetAllTransitioning s;
              s = (if \<not> auto \<and> shouldAutoTransition s then stopAutoTransition s else s);
              selectedIndex = getSelectedIndex s;
              selected = itemAt s selectedIndex;
              nextIndex = selectedIndex + 1
          in if nextIndex = int (length (items s)) \<and> \<not> loop s then Done (endDebounce s)
             else
               let looping = (nextIndex = int (length (items s)));
                   nextIndex = (if looping then 0 else nextIndex);
                   next = itemAt s nextIndex
               in andThen (updateIndicators nextIndex s) (\<lambda>s.
                    let s = (if looping then reclauclatePositions selectedIndex True s else s);
                        (selectedLoopTimeout, s) = newVar s
                    in andThen
                         (markTransitioning selected False
                            (Some (ForwardSelectedDone looping nextIndex selectedLoopTimeout)) s)
                         (\<lambda>s.
                            let s = (if looping then
                                       let (h, s) = setTimeout (ForwardLoopBackup nextIndex) 3000 s
                                       in setVar selectedLoopTimeout (Some h) s
                                     else s)
                            in chain
                                 [markTransitioning next True None,
                                  refRemove selected (selectedItemClass s),
                                  refAdd selected (prevItemClass s),
                                  refRemove next (nextItemClass s),
                                  refAdd next (selectedItemClass s)] s)))"

definition transitionBackward :: "bool \<Rightarrow> state \<Rightarrow> outcome" where
  "transitionBackward auto s0 =
     (case debounce s0 of
        (True, s) \<Rightarrow> Done s
      | (False, s) \<Rightarrow>
          let s = resetAllTransitioning s;
              s = (if \<not> auto \<and> shouldAutoTransition s then stopAutoTransition s else s);
              selectedIndex = getSelectedIndex s;
              selected = itemAt s selectedIndex;
              prevIndex = selectedIndex - 1
          in if prevIndex < 0 \<and> \<not> loop s then Done (endDebounce s)
             else
               let looping = (prevIndex < 0);
                   prevIndex = (if looping then int (length (items s)) - 1 else prevIndex);
                   prev = itemAt s prevIndex
               in andThen (updateIndicators prevIndex s) (\<lambda>s.
                    let s = (if looping then reclauclatePositions selectedIndex True s else s)
                    in chain
                         [markTransitioning selected False
                            (Some (BackwardSelectedDone looping prevIndex)),
                          markTransitioning prev True None,
                          refRemove selected (selectedItemClass s),
                          refAdd selected (nextItemClass s),
                          refRemove prev (prevItemClass s),
                          refAdd prev (selectedItemClass s)] s))"

definition autoTransition :: "state \<Rightarrow> outcome" where
  "autoTransition s =
     (if loop s then transitionForward True s
      else
        let s = (if isAtEnd s then s\<lparr>autoTransitionDirection := 0\<rparr>
                 else if isAtFront s then s\<lparr>autoTransitionDirection := 1\<rparr>
                 else s)
        in if autoTransitionDirection s = 1 then transitionForward True s
           else transitionBackward True s)"

subsection \<open>Running a closure; the loops of \<open>transitionTo\<close>\<close>

text \<open>
  \<open>call c s\<close> runs the body of the function expression \<open>c\<close>. The loops
  \<open>transitionToPrevLoop\<close> and \<open>transitionToNextLoop\<close> call their \<open>callback\<close> at the end
  of the walk and otherwise hand a closure over themselves to \<open>markTransitioning\<close>.
  That closure increments its captured \<open>i\<close> when it runs (\<open>++i\<close>); it is registered
  with one call of \<open>markTransitioning\<close>, so its captured \<open>i\<close> is the value at creation.
\<close>

fun closureRank :: "closure \<Rightarrow> nat" where
  "closureRank (ToPrevStart selectedIndex distance target) = 1"
| "closureRank (ToNextStart selectedIndex distance target) = 1"
| "closureRank (PrevLoopStep selectedIndex distance i callback) = Suc (closureRank callback)"
| "closureRank (NextLoopStep selectedIndex distance i callback) = Suc (closureRank callback)"
| "closureRank (OnTransitionEnd item endsDebounce (Some callback) backupTimeout) =
     Suc (closureRank callback)"
| "closureRank (BackupTimeout (Some callback) backupTimeout) = Suc (closureRank callback)"
| "closureRank c = 0"

function call :: "closure \<Rightarrow> state \<Rightarrow> outcome"
  and transitionToPrevLoop :: "int \<Rightarrow> int \<Rightarrow> int \<Rightarrow> closure \<Rightarrow> state \<Rightarrow> outcome"
  and transitionToNextLoop :: "int \<Rightarrow> int \<Rightarrow> int \<Rightarrow> closure \<Rightarrow> state \<Rightarrow> outcome"
where
  "call DebounceRelease s = Done (s\<lparr>transitioning := False\<rparr>)"
| "call (ForwardSelectedDone looping nextIndex selectedLoopTimeout) s =
     (if looping then
        let s = reclauclatePositions nextIndex False s
        in Done (case getVar selectedLoopTimeout s of None \<Rightarrow> s | Some h \<Rightarrow> clearTimeout h s)
      else Done s)"
| "call (ForwardLoopBackup nextIndex) s = Done (reclauclatePositions nextIndex False s)"
| "call (BackwardSelectedDone looping prevIndex) s =
     (if looping then Done (reclauclatePositions prevIndex False s) else Done s)"
| "call (ToPrevStart selectedIndex distance target) s =
     transitionToPrevLoop selectedIndex distance 1 (ToPrevFinal target) s"
| "call (ToPrevFinal target) s =
     chain
       [markTransitioning target True None,
        refRemove target (nextItemClass s),
        refAdd target (selectedItemClass s)] s"
| "call (ToNextStart selectedIndex distance target) s =
     transitionToNextLoop selectedIndex distance 1 (ToNextFinal target) s"
| "call (ToNextFinal target) s =
     chain
       [markTransitioning target True None,
        refRemove target (prevItemClass s),
        refAdd target (selectedItemClass s)] s"
| "call (PrevLoopStep selectedIndex distance i callback) s =
     transitionToPrevLoop selectedIndex distance (i + 1) callback s"
| "call (NextLoopStep selectedIndex distance i callback) s =
     transitionToNextLoop selectedIndex distance (i + 1) callback s"
| "call AutoTick s = autoTransition s"
| "call AutoResume s =
     (let s = startAutoTransition s;
          s = (case autoTransitionTimeout s of None \<Rightarrow> s | Some h \<Rightarrow> clearTimeout h s)
      in Done (s\<lparr>autoTransitionTimeout := None\<rparr>))"
| "call (OnTransitionEnd item endsDebounce callback backupTimeout) s =
     (let s = updItem item (elRemove (tokenOf (transitioningClass s))) s;
          s = removeEventListener item (OnTransitionEnd item endsDebounce callback backupTimeout) s
      in case getVar backupTimeout s of
           None \<Rightarrow> Done s
         | Some h \<Rightarrow>
             let s = clearTimeout h s;
                 s = (if endsDebounce then releaseDebounce s else s)
             in (case callback of None \<Rightarrow> Done s | Some c \<Rightarrow> call c s))"
| "call (BackupTimeout callback backupTimeout) s =
     (let s = setVar backupTimeout None s;
          s = releaseDebounce s
      in (case callback of None \<Rightarrow> Done s | Some c \<Rightarrow> call c s))"
| "transitionToPrevLoop selectedIndex distance i callback s =
     (if i \<ge> distance then call callback s
      else
        let current = itemAt s (selectedIndex + i)
        in chain
             [markTransitioning current False
                (Some (PrevLoopStep selectedIndex distance i callback)),
              refRemove current (nextItemClass s),
              refAdd current (prevItemClass s)] s)"
| "transitionToNextLoop selectedIndex distance i callback s =
     (if i \<ge> distance then call callback s
      else
        let current = itemAt s (selectedIndex - i)
        in chain
             [markTransitioning current False
                (Some (NextLoopStep selectedIndex distance i callback)),
              refRemove current (prevItemClass s),
              refAdd current (nextItemClass s)] s)"
  by pat_completeness auto
termination
  by (relation "measure (\<lambda>x. case x of
         Inl (c, s) \<Rightarrow> 2 * closureRank c
       | Inr (Inl (a, b, i, c, s)) \<Rightarrow> 2 * closureRank c + 1
       | Inr (Inr (a, b, i, c, s)) \<Rightarrow> 2 * closureRank c + 1)") auto

subsection \<open>Jumping to an index\<close>

definition transitionTo :: "int \<Rightarrow> state \<Rightarrow> outcome" where
  "transitionTo targetIndex s0 =
     (let selectedIndex = getSelectedIndex s0
      in if selectedIndex = targetIndex then Done s0
         else
           (case debounce s0 of
              (True, s) \<Rightarrow> Done s
            | (False, s) \<Rightarrow>
                let s = resetAllTransitioning s;
                    s = (if shouldAutoTransition s then stopAutoTransition s else s)
                in andThen (updateIndicators targetIndex s) (\<lambda>s.
                     let selected = itemAt s selectedIndex;
                         target = itemAt s targetIndex
                     in if selectedIndex < targetIndex then
                          let distance = targetIndex - selectedIndex
                          in chain
                               [markTransitioning selected False
                                  (Some (ToPrevStart selectedIndex distance target)),
                                refRemove selected (selectedItemClass s),
                                refAdd selected (prevItemClass s)] s
                        else
                          let distance = selectedIndex - targetIndex
                          in chain
                               [markTransitioning selected False
                                  (Some (ToNextStart selectedIndex distance target)),
                                refRemove selected (selectedItemClass s),
                                refAdd selected (nextItemClass s)] s)))"

subsection \<open>The environment's steps\<close>

text \<open>An exception that leaves a timer or event handler is reported by the browser and
  goes no further; the state reached when it was raised stays.\<close>

fun absorb :: "outcome \<Rightarrow> state" where
  "absorb (Done s) = s"
| "absorb (Throw e s) = s\<lparr>uncaught := uncaught s @ [e]\<rparr>"

text \<open>A pending timer elapses: a timeout leaves the table, an interval stays.\<close>

definition fireTimer :: "nat \<Rightarrow> state \<Rightarrow> state" where
  "fireTimer h s =
     (case timers s h of
        None \<Rightarrow> s
      | Some (Timeout c d) \<Rightarrow> absorb (call c (s\<lparr>timers := (timers s)(h := None)\<rparr>))
      | Some (Interval c d) \<Rightarrow> absorb (call c s))"

text \<open>A \<open>transitionend\<close> event on item \<open>k\<close>: the listeners registered when the dispatch
  starts run in order of registration, each only if it is still registered.\<close>

fun dispatch :: "closure list \<Rightarrow> nat \<Rightarrow> state \<Rightarrow> state" where
  "dispatch [] k s = s"
| "dispatch (l # ls) k s =
     dispatch ls k (if l \<in> set (listeners (items s ! k)) then absorb (call l s) else s)"

definition transitionend :: "nat \<Rightarrow> state \<Rightarrow> state" where
  "transitionend k s = (if k < length (items s) then dispatch (listeners (items s ! k)) k s else s)"

subsection \<open>Construction\<close>

definition Slideshow ::
  "element list \<Rightarrow> indicator list option \<Rightarrow> bool \<Rightarrow> bool \<Rightarrow> bool \<Rightarrow> int \<Rightarrow> int \<Rightarrow>
   string \<Rightarrow> string \<Rightarrow> string \<Rightarrow> string \<Rightarrow> string option \<Rightarrow> string option \<Rightarrow> state" where
  "Slideshow its inds lp deb aut autTime autDelay selInd prv sel nxt trc ntc =
     (let s = \<lparr>items = its, indicators = inds, loop = lp, shouldDebounce = deb,
               shouldAutoTransition = aut, autoTransitionTime = autTime,
               autoTransitionDelay = autDelay, selectedIndicatorClass = selInd,
               prevItemClass = prv, selectedItemClass = sel, nextItemClass = nxt,
               transitioningClass = trc, notransitionClass = ntc,
               transitioning = False, transitioningTimeout = None,
               autoTransitionDirection = 1, autoTransitionInterval = None,
               autoTransitionTimeout = None,
               timers = Map.empty, nextTimer = 1, vars = [], console = [], uncaught = []\<rparr>;
          s = (case indicators s of
                 None \<Rightarrow> s
               | Some is \<Rightarrow>
                   if length (items s) \<noteq> length is
                   then s\<lparr>console := console s @
                          [''Invalid number of indicators! Number of indicators must match number of items.'']\<rparr>
                   else initiateIndicators s)
      in startAutoTransition s)"

subsection \<open>Observations\<close>

definition hasClass :: "state \<Rightarrow> nat \<Rightarrow> string \<Rightarrow> bool" where
  "hasClass s k c = classList_contains (classList (items s ! k)) c"

datatype role = Previous | Selected | Next

fun roleClass :: "state \<Rightarrow> role \<Rightarrow> string" where
  "roleClass s Previous = prevItemClass s"
| "roleClass s Selected = selectedItemClass s"
| "roleClass s Next = nextItemClass s"

text \<open>The role tags an item bears, in the order previous, selected, next.\<close>

definition rolesOf :: "state \<Rightarrow> nat \<Rightarrow> role list" where
  "rolesOf s k = filter (\<lambda>r. hasClass s k (roleClass s r)) [Previous, Selected, Next]"

definition countSelected :: "state \<Rightarrow> nat" where
  "countSelected s =
     length (filter (\<lambda>e. classList_contains (classList e) (selectedItemClass s)) (items s))"

subsection \<open>The page of example.js\<close>

text \<open>Markup with \<open>n\<close> items of which item \<open>k\<close> is selected, the items before it previous
  and the items after it next, with the class names of \<open>src/example.js\<close>.\<close>

definition exampleItems :: "nat \<Rightarrow> nat \<Rightarrow> element list" where
  "exampleItems n k =
     map (\<lambda>i. \<lparr>classList =
                  [''slideshow-item'',
                   if i < k then ''slideshow-item-prev''
                   else if i = k then ''slideshow-item-selected''
                   else ''slideshow-item-next''],
                listeners = []\<rparr>) [0..<n]"

definition exampleIndicators :: "nat \<Rightarrow> nat \<Rightarrow> indicator list" where
  "exampleIndicators n k =
     map (\<lambda>i. \<lparr>indicatorClassList =
                  (if i = k then [''slideshow-indicator'', ''slideshow-indicator-selected'']
                   else [''slideshow-indicator'']),
                dataIndex = None\<rparr>) [0..<n]"

definition example :: "nat \<Rightarrow> nat \<Rightarrow> bool \<Rightarrow> bool \<Rightarrow> bool \<Rightarrow> state" where
  "example n k lp deb aut =
     Slideshow (exampleItems n k) (Some (exampleIndicators n k)) lp deb aut 7500 10000
       ''slideshow-indicator-selected'' ''slideshow-item-prev'' ''slideshow-item-selected''
       ''slideshow-item-next'' (Some ''slideshow-item-transitioning'')
       (Some ''slideshow-item-notransition'')"

text \<open>The same page built with no indicator sequence, and with no transitioning class.\<close>

definition exampleNoIndicators :: "nat \<Rightarrow> nat \<Rightarrow> state" where
  "exampleNoIndicators n k =
     Slideshow (exampleItems n k) None True True True 7500 10000
       ''slideshow-indicator-selected'' ''slideshow-item-prev'' ''slideshow-item-selected''
       ''slideshow-item-next'' (Some ''slideshow-item-transitioning'')
       (Some ''slideshow-item-notransition'')"

definition exampleNoTransitioning :: "nat \<Rightarrow> nat \<Rightarrow> state" where
  "exampleNoTransitioning n k =
     Slideshow (exampleItems n k) (Some (exampleIndicators n k)) False True True 7500 10000
       ''slideshow-indicator-selected'' ''slideshow-item-prev'' ''slideshow-item-selected''
       ''slideshow-item-next'' None (Some ''slideshow-item-notransition'')"

text \<open>Markup in which no item is selected: every item is next.\<close>

definition exampleNoSelected :: "nat \<Rightarrow> state" where
  "exampleNoSelected n =
     Slideshow (exampleItems n n) (Some (exampleIndicators n n)) True True True 7500 10000
       ''slideshow-indicator-selected'' ''slideshow-item-prev'' ''slideshow-item-selected''
       ''slideshow-item-next'' (Some ''slideshow-item-transitioning'')
       (Some ''slideshow-item-notransition'')"

fun errorOf :: "outcome \<Rightarrow> error option" where
  "errorOf (Done s) = None"
| "errorOf (Throw e s) = Some e"

subsection \<open>Well-formed environments\<close>

text \<open>
  What holds of the timers, listeners and captured variables in every state the
  program reaches. A listener of \<open>markTransitioning\<close> and its backup timeout share one
  cell (the variable \<open>backupTimeout\<close>): the cell holds the handle of the timeout while
  that is pending and \<open>null\<close> once it has elapsed. Handles are never reused, and no
  two listeners share a cell.
\<close>

definition listenersOf :: "state \<Rightarrow> closure list list" where
  "listenersOf s = map listeners (items s)"

fun backupTask :: "closure \<Rightarrow> bool" where
  "backupTask (BackupTimeout cb v) = True"
| "backupTask c = False"

definition isBackup :: "(nat \<Rightarrow> timer option) \<Rightarrow> nat \<Rightarrow> bool" where
  "isBackup T h = (case T h of None \<Rightarrow> False | Some t \<Rightarrow> backupTask (task t))"

fun cellOf :: "closure \<Rightarrow> nat" where
  "cellOf (OnTransitionEnd k e cb v) = v"
| "cellOf c = 0"

text \<open>The callbacks that the program hands to \<open>markTransitioning\<close>.\<close>

fun callbackOK :: "(nat \<Rightarrow> timer option) \<Rightarrow> nat option list \<Rightarrow> closure option \<Rightarrow> bool" where
  "callbackOK T V None = True"
| "callbackOK T V (Some (ForwardSelectedDone looping nextIndex c)) =
     (c < length V \<and> (case V ! c of None \<Rightarrow> True | Some h \<Rightarrow> \<not> isBackup T h))"
| "callbackOK T V (Some (BackwardSelectedDone looping prevIndex)) = True"
| "callbackOK T V (Some (ToPrevStart selectedIndex distance target)) = True"
| "callbackOK T V (Some (ToNextStart selectedIndex distance target)) = True"
| "callbackOK T V (Some (PrevLoopStep selectedIndex distance i (ToPrevFinal target))) = True"
| "callbackOK T V (Some (NextLoopStep selectedIndex distance i (ToNextFinal target))) = True"
| "callbackOK T V (Some c) = False"

fun timerOK :: "(nat \<Rightarrow> timer option) \<Rightarrow> nat option list \<Rightarrow> nat \<Rightarrow> timer \<Rightarrow> bool" where
  "timerOK T V h (Timeout DebounceRelease d) = True"
| "timerOK T V h (Timeout (ForwardLoopBackup nextIndex) d) = True"
| "timerOK T V h (Timeout AutoResume d) = True"
| "timerOK T V h (Timeout (BackupTimeout cb v) d) =
     (v < length V \<and> V ! v = Some h \<and> d = 3000 \<and> callbackOK T V cb)"
| "timerOK T V h (Interval AutoTick d) = True"
| "timerOK T V h t = False"

fun listenerOK :: "(nat \<Rightarrow> timer option) \<Rightarrow> nat option list \<Rightarrow> nat \<Rightarrow> closure \<Rightarrow> bool" where
  "listenerOK T V k (OnTransitionEnd k' e cb v) =
     (k' = k \<and> v < length V \<and>
      (case V ! v of None \<Rightarrow> True | Some h \<Rightarrow> T h = Some (Timeout (BackupTimeout cb v) 3000)))"
| "listenerOK T V k c = False"

text \<open>The timers that are not the backup timeout of a tracked item.\<close>

fun plainTimer :: "timer \<Rightarrow> bool" where
  "plainTimer (Timeout DebounceRelease d) = True"
| "plainTimer (Timeout (ForwardLoopBackup nextIndex) d) = True"
| "plainTimer (Timeout AutoResume d) = True"
| "plainTimer (Interval AutoTick d) = True"
| "plainTimer t = False"

definition handleOK :: "(nat \<Rightarrow> timer option) \<Rightarrow> nat \<Rightarrow> nat option \<Rightarrow> bool" where
  "handleOK T n x = (case x of None \<Rightarrow> True | Some h \<Rightarrow> h < n \<and> \<not> isBackup T h)"

definition wfEnv ::
  "closure list list \<Rightarrow> (nat \<Rightarrow> timer option) \<Rightarrow> nat \<Rightarrow> nat option list \<Rightarrow>
   nat option \<Rightarrow> nat option \<Rightarrow> nat option \<Rightarrow> bool" where
  "wfEnv L T n V tt ai at \<longleftrightarrow>
     (\<forall>h t. T h = Some t \<longrightarrow> h < n \<and> timerOK T V h t)
     \<and> handleOK T n tt \<and> handleOK T n ai \<and> handleOK T n at
     \<and> (\<forall>v h. v < length V \<and> V ! v = Some h \<longrightarrow> h < n)
     \<and> (\<forall>k l. k < length L \<and> l \<in> set (L ! k) \<longrightarrow> listenerOK T V k l)
     \<and> (\<forall>k l k' l'. k < length L \<and> l \<in> set (L ! k) \<and> k' < length L \<and> l' \<in> set (L ! k')
            \<and> cellOf l = cellOf l' \<longrightarrow> l = l')"

definition wf :: "state \<Rightarrow> bool" where
  "wf s = wfEnv (listenersOf s) (timers s) (nextTimer s) (vars s)
            (transitioningTimeout s) (autoTransitionInterval s) (autoTransitionTimeout s)"

text \<open>Clearing the timer whose handle a field holds, when it holds one.\<close>

fun clearHandle :: "nat option \<Rightarrow> (nat \<Rightarrow> timer option) \<Rightarrow> (nat \<Rightarrow> timer option)" where
  "clearHandle None T = T"
| "clearHandle (Some h) T = T(h := None)"

text \<open>The page of example.js with looping enabled and no transitioning class.\<close>

definition exampleLoopNoTransitioning :: "nat \<Rightarrow> nat \<Rightarrow> state" where
  "exampleLoopNoTransitioning n k =
     Slideshow (exampleItems n k) (Some (exampleIndicators n k)) True True True 7500 10000
       ''slideshow-indicator-selected'' ''slideshow-item-prev'' ''slideshow-item-selected''
       ''slideshow-item-next'' None (Some ''slideshow-item-notransition'')"

text \<open>
  \<open>untracked A s s'\<close>: from \<open>s\<close> to \<open>s'\<close> no listener was added or removed, every
  timer pending in \<open>s'\<close> was pending in \<open>s\<close> or is a debounce release or an auto
  transition resume, and only the items whose index satisfies \<open>A\<close> changed.
\<close>

definition untracked :: "(nat \<Rightarrow> bool) \<Rightarrow> state \<Rightarrow> state \<Rightarrow> bool" where
  "untracked A s s' \<longleftrightarrow>
     transitioningClass s' = transitioningClass s
     \<and> length (items s') = length (items s)
     \<and> map listeners (items s') = map listeners (items s)
     \<and> (\<forall>h tm. timers s' h = Some tm \<longrightarrow>
            timers s h = Some tm \<or> task tm = DebounceRelease \<or> task tm = AutoResume)
     \<and> (\<forall>k. \<not> A k \<longrightarrow> items s' ! k = items s ! k)"

subsection \<open>The transitions after the guard\<close>


definition backwardBody :: "state \<Rightarrow> outcome" where
  "backwardBody s =
     (let selectedIndex = getSelectedIndex s;
          selected = itemAt s selectedIndex;
          prevIndex = selectedIndex - 1
      in if prevIndex < 0 \<and> \<not> loop s then Done (endDebounce s)
         else
           let looping = (prevIndex < 0);
               prevIndex = (if looping then int (length (items s)) - 1 else prevIndex);
               prev = itemAt s prevIndex
           in andThen (updateIndicators prevIndex s) (\<lambda>s.
                let s = (if looping then reclauclatePositions selectedIndex True s else s)
                in chain
                     [markTransitioning selected False
                        (Some (BackwardSelectedDone looping prevIndex)),
                      markTransitioning prev True None,
                      refRemove selected (selectedItemClass s),
                      refAdd selected (nextItemClass s),
                      refRemove prev (prevItemClass s),
                      refAdd prev (selectedItemClass s)] s))"

text \<open>The state in which the body starts: \<open>resetAllTransitioning\<close>, then
  \<open>stopAutoTransition\<close> when the call asks for it.\<close>

definition prelude :: "bool \<Rightarrow> state \<Rightarrow> state" where
  "prelude stop s =
     (let s = resetAllTransitioning s
      in if stop \<and> shouldAutoTransition s then stopAutoTransition s else s)"





subsection \<open>Completion of a tracked transition\<close>





text \<open>The state in which a transition's body starts when the debounce guard admits
  the call.\<close>

definition entry :: "bool \<Rightarrow> state \<Rightarrow> state" where
  "entry stop s = prelude stop (snd (debounce s))"

section \<open>Properties\<close>

subsection \<open>The debounce guard\<close>

lemma debounce_blocked: "shouldDebounce s \<Longrightarrow> transitioning s \<Longrightarrow> debounce s = (True, s)"
  by (simp add: debounce_def)

lemma debounce_disabled: "\<not> shouldDebounce s \<Longrightarrow> debounce s = (False, s)"
  by (simp add: debounce_def)

lemma debounce_admitted:
  "shouldDebounce s \<Longrightarrow> \<not> transitioning s \<Longrightarrow>
   debounce s =
     (False,
      s\<lparr>transitioning := True,
        timers := (case transitioningTimeout s of None \<Rightarrow> timers s
                   | Some h \<Rightarrow> (timers s)(h := None))(nextTimer s \<mapsto> Timeout DebounceRelease 3000),
        nextTimer := Suc (nextTimer s),
        transitioningTimeout := Some (nextTimer s)\<rparr>)"
  by (simp add: debounce_def setTimeout_def clearTimeout_def split: option.splits)

subsection \<open>Well-formedness is kept by the changes the program makes\<close>

lemma nth_update_None:
  "c < length V \<Longrightarrow> V[v := None] ! c = (if c = v then None else V ! c)"
  by (simp add: nth_list_update)

lemma isBackup_clear: "isBackup (T(h := None)) h' \<Longrightarrow> isBackup T h'"
  by (auto simp: isBackup_def split: if_splits)

lemma isBackup_upd_other: "h' \<noteq> h \<Longrightarrow> isBackup (T(h := x)) h' = isBackup T h'"
  by (simp add: isBackup_def)

lemma callbackOK_mono:
  assumes "callbackOK T V cb"
    and "length V \<le> length V'"
    and "\<And>c. c < length V \<Longrightarrow>
           V' ! c = None \<or> V' ! c = V ! c \<or> (\<exists>h. V' ! c = Some h \<and> \<not> isBackup T' h)"
    and "\<And>c h. c < length V \<Longrightarrow> V ! c = Some h \<Longrightarrow> isBackup T' h \<Longrightarrow> isBackup T h"
  shows "callbackOK T' V' cb"
  using assms
proof (induction T V cb rule: callbackOK.induct)
  case (2 T V looping nextIndex c)
  then have c: "c < length V" by simp
  from 2(3)[OF c] 2(1) 2(4)[OF c] c 2(2) show ?case
    by (auto split: option.splits)
qed simp_all

lemma timerOK_mono:
  assumes "timerOK T V h t"
    and "length V \<le> length V'"
    and "\<And>v. v < length V \<Longrightarrow> V ! v = Some h \<Longrightarrow> V' ! v = Some h"
    and "\<And>cb. callbackOK T V cb \<Longrightarrow> callbackOK T' V' cb"
  shows "timerOK T' V' h t"
  using assms
  by (induction T V h t rule: timerOK.induct) auto

lemma listenerOK_mono:
  assumes "listenerOK T V k l"
    and "length V \<le> length V'"
    and "cellOf l < length V \<Longrightarrow>
           V' ! cellOf l = None \<or>
           (V' ! cellOf l = V ! cellOf l \<and> (\<forall>h. V ! cellOf l = Some h \<longrightarrow> T' h = T h))"
  shows "listenerOK T' V' k l"
  using assms
  by (induction T V k l rule: listenerOK.induct) (auto split: option.splits)

lemma handleOK_mono:
  assumes "handleOK T n x" "n \<le> n'"
    and "\<And>h. h < n \<Longrightarrow> isBackup T' h \<Longrightarrow> isBackup T h"
  shows "handleOK T' n' x"
  using assms by (auto simp: handleOK_def split: option.splits)


lemma wfEnv_step:
  assumes wf: "wfEnv L T n V tt ai at"
    and n: "n \<le> n'" and len: "length V \<le> length V'"
    and timers: "\<And>h t. T' h = Some t \<Longrightarrow>
                   T h = Some t \<or> (n \<le> h \<and> h < n' \<and> timerOK T' V' h t)"
    and cells: "\<And>v. v < length V \<Longrightarrow> V' ! v = V ! v \<or> V' ! v = None"
    and keep: "\<And>h cb v d. T' h = Some (Timeout (BackupTimeout cb v) d) \<Longrightarrow>
                   T h = Some (Timeout (BackupTimeout cb v) d) \<Longrightarrow> v < length V \<Longrightarrow>
                   V ! v = Some h \<Longrightarrow> V' ! v = V ! v"
    and newcells: "\<And>v h. length V \<le> v \<Longrightarrow> v < length V' \<Longrightarrow> V' ! v = Some h \<Longrightarrow> h < n'"
    and live: "\<And>k l h. k < length L \<Longrightarrow> l \<in> set (L ! k) \<Longrightarrow> V ! cellOf l = Some h \<Longrightarrow>
                   V' ! cellOf l = Some h \<Longrightarrow> T' h = T h"
  shows "wfEnv L T' n' V' tt ai at"
proof -
  have old: "h < n" "timerOK T V h t" if "T h = Some t" for h t
    using wf that by (auto simp: wfEnv_def)
  have oldT: "T h = Some t" if "T' h = Some t" "h < n" for h t
    using timers [OF that(1)] that(2) by auto
  have bk: "isBackup T h" if "isBackup T' h" "h < n" for h
    using that oldT [of h] by (auto simp: isBackup_def split: option.splits)
  have vh: "h < n" if "v < length V" "V ! v = Some h" for v h
    using wf that unfolding wfEnv_def by blast
  have cb: "callbackOK T' V' cb" if "callbackOK T V cb" for cb
    using that
  proof (rule callbackOK_mono)
    show "length V \<le> length V'" by (rule len)
  next
    fix c assume "c < length V"
    with cells [of c] show "V' ! c = None \<or> V' ! c = V ! c \<or> (\<exists>h. V' ! c = Some h \<and> \<not> isBackup T' h)"
      by auto
  next
    fix c h assume "c < length V" "V ! c = Some h" "isBackup T' h"
    then show "isBackup T h" using bk [of h] vh [of c h] by simp
  qed
  have t1: "h < n' \<and> timerOK T' V' h t" if t': "T' h = Some t" for h t
    using timers [OF t']
  proof
    assume t: "T h = Some t"
    from old [OF t] have a: "h < n" "timerOK T V h t" .
    have "timerOK T' V' h t"
    proof (cases t)
      case (Timeout c d)
      show ?thesis
      proof (cases c)
        case (BackupTimeout cb' v)
        with Timeout a(2) have b: "v < length V" "V ! v = Some h" "d = 3000" "callbackOK T V cb'"
          by auto
        from keep [of h cb' v d] t t' Timeout BackupTimeout b have "V' ! v = V ! v" by simp
        with b len cb [OF b(4)] show ?thesis
          using Timeout BackupTimeout by auto
      qed (use a(2) Timeout in auto)
    next
      case (Interval c d)
      with a(2) show ?thesis by (cases c) auto
    qed
    with a(1) n show ?thesis by simp
  next
    assume "n \<le> h \<and> h < n' \<and> timerOK T' V' h t"
    then show ?thesis by simp
  qed
  have t2: "handleOK T' n' x" if "handleOK T n x" for x
    using that n bk by (auto simp: handleOK_def split: option.splits)
  have t3: "h < n'" if "v < length V' \<and> V' ! v = Some h" for v h
  proof (cases "v < length V")
    case True
    with that cells [of v] have "V ! v = Some h" by auto
    with True have "h < n" by (rule vh)
    with n show ?thesis by simp
  next
    case False
    with that newcells [of v h] show ?thesis by simp
  qed
  have t4: "listenerOK T' V' k l" if kl: "k < length L \<and> l \<in> set (L ! k)" for k l
  proof -
    from wf kl have ok: "listenerOK T V k l" by (auto simp: wfEnv_def)
    show ?thesis
    proof (cases l)
      case (OnTransitionEnd k' e cb' v)
      with ok have b: "k' = k" "v < length V"
        "case V ! v of None \<Rightarrow> True | Some h \<Rightarrow> T h = Some (Timeout (BackupTimeout cb' v) 3000)"
        by auto
      show ?thesis
      proof (cases "V' ! v")
        case None
        with b len OnTransitionEnd show ?thesis by simp
      next
        case (Some h)
        with cells [of v] b(2) have vv: "V ! v = Some h" by auto
        with live [of k l h] kl Some OnTransitionEnd have "T' h = T h" by simp
        with vv b len Some OnTransitionEnd show ?thesis by simp
      qed
    qed (use ok in auto)
  qed
  have t5: "l = l'" if "k < length L \<and> l \<in> set (L ! k) \<and> k' < length L \<and> l' \<in> set (L ! k')
            \<and> cellOf l = cellOf l'" for k l k' l'
    using wf that unfolding wfEnv_def by blast
  have hs: "handleOK T n tt" "handleOK T n ai" "handleOK T n at"
    using wf by (auto simp: wfEnv_def)
  show ?thesis
    unfolding wfEnv_def
    apply (intro conjI allI impI)
    subgoal for h t using t1 [of h t] by simp
    subgoal for h t using t1 [of h t] by simp
    subgoal by (rule t2 [OF hs(1)])
    subgoal by (rule t2 [OF hs(2)])
    subgoal by (rule t2 [OF hs(3)])
    subgoal for v h using t3 [of v h] by simp
    subgoal for k l using t4 [of k l] by simp
    subgoal for k l k' l' using t5 [of k l k' l'] by simp
    done
qed

lemma wfEnv_handles:
  "wfEnv L T n V tt ai at \<Longrightarrow> handleOK T n tt' \<Longrightarrow> handleOK T n ai' \<Longrightarrow> handleOK T n at' \<Longrightarrow>
   wfEnv L T n V tt' ai' at'"
  unfolding wfEnv_def by blast

lemma wfEnv_handleD:
  "wfEnv L T n V tt ai at \<Longrightarrow> handleOK T n tt \<and> handleOK T n ai \<and> handleOK T n at"
  unfolding wfEnv_def by blast

lemma handleOK_None [simp]: "handleOK T n None"
  by (simp add: handleOK_def)

lemma wfEnv_listeners_subset:
  assumes wf: "wfEnv L T n V tt ai at"
    and len: "length L' = length L"
    and sub: "\<And>k. k < length L \<Longrightarrow> set (L' ! k) \<subseteq> set (L ! k)"
  shows "wfEnv L' T n V tt ai at"
proof -
  have a: "listenerOK T V k l" if "k < length L'" "l \<in> set (L' ! k)" for k l
    using wf that len sub [of k] unfolding wfEnv_def by auto
  have b: "l = l'" if "k < length L'" "l \<in> set (L' ! k)" "k' < length L'" "l' \<in> set (L' ! k')"
    "cellOf l = cellOf l'" for k l k' l'
  proof -
    from that len sub [of k] sub [of k'] have "k < length L" "l \<in> set (L ! k)" "k' < length L"
      "l' \<in> set (L ! k')" by auto
    with wf that(5) show ?thesis unfolding wfEnv_def by blast
  qed
  from wf have c: "\<forall>h t. T h = Some t \<longrightarrow> h < n \<and> timerOK T V h t"
    "handleOK T n tt" "handleOK T n ai" "handleOK T n at"
    "\<forall>v h. v < length V \<and> V ! v = Some h \<longrightarrow> h < n"
    unfolding wfEnv_def by blast+
  show ?thesis
    unfolding wfEnv_def using a b c by blast
qed

lemma listener_shape:
  assumes "wfEnv L T n V tt ai at" "k < length L" "l \<in> set (L ! k)"
  shows "\<exists>e cb. l = OnTransitionEnd k e cb (cellOf l) \<and> cellOf l < length V \<and>
           (\<forall>h. V ! cellOf l = Some h \<longrightarrow> T h = Some (Timeout (BackupTimeout cb (cellOf l)) 3000))"
proof -
  from assms have "listenerOK T V k l" unfolding wfEnv_def by blast
  then show ?thesis by (cases l) auto
qed

lemma live_isBackup:
  assumes "wfEnv L T n V tt ai at" "k < length L" "l \<in> set (L ! k)" "V ! cellOf l = Some h"
  shows "isBackup T h \<and> h < n"
proof -
  from listener_shape [OF assms(1-3)] assms(4) obtain e cb where
    "T h = Some (Timeout (BackupTimeout cb (cellOf l)) 3000)" by blast
  moreover from assms(1) this have "h < n" unfolding wfEnv_def by blast
  ultimately show ?thesis by (simp add: isBackup_def)
qed

lemma plainTimer_OK: "plainTimer t \<Longrightarrow> timerOK T V h t"
  by (induction t rule: plainTimer.induct) auto

lemma plainTimer_not_backup: "plainTimer t \<Longrightarrow> \<not> backupTask (task t)"
  by (induction t rule: plainTimer.induct) auto

lemma wfEnv_clear:
  assumes wf: "wfEnv L T n V tt ai at" and h: "\<not> isBackup T h"
  shows "wfEnv L (T(h := None)) n V tt ai at"
  using wf
proof (rule wfEnv_step)
  fix k l h' assume "k < length L" "l \<in> set (L ! k)" "V ! cellOf l = Some h'"
  from live_isBackup [OF wf this] h have "h' \<noteq> h" by auto
  then show "(T(h := None)) h' = T h'" by simp
qed (auto split: if_splits)

lemma wfEnv_setPlain:
  assumes wf: "wfEnv L T n V tt ai at" and t: "plainTimer t"
  shows "wfEnv L (T(n \<mapsto> t)) (Suc n) V tt ai at"
  using wf
proof (rule wfEnv_step)
  fix k l h' assume "k < length L" "l \<in> set (L ! k)" "V ! cellOf l = Some h'"
  from live_isBackup [OF wf this] have "h' \<noteq> n" by auto
  then show "(T(n \<mapsto> t)) h' = T h'" by simp
next
  fix h t' assume "(T(n \<mapsto> t)) h = Some t'"
  then show "T h = Some t' \<or> n \<le> h \<and> h < Suc n \<and> timerOK (T(n \<mapsto> t)) V h t'"
    using t by (auto split: if_splits intro: plainTimer_OK)
next
qed auto

lemma wfEnv_newVar:
  assumes wf: "wfEnv L T n V tt ai at"
  shows "wfEnv L T n (V @ [None]) tt ai at"
  using wf
  by (rule wfEnv_step) (auto simp: nth_append)

lemma wfEnv_addListener:
  assumes wf: "wfEnv L T n V tt ai at" and k: "k < length L"
    and ok: "listenerOK T V k l"
    and fresh: "\<And>k' l'. k' < length L \<Longrightarrow> l' \<in> set (L ! k') \<Longrightarrow> cellOf l' \<noteq> cellOf l"
  shows "wfEnv (L[k := L ! k @ [l]]) T n V tt ai at"
proof -
  let ?L = "L[k := L ! k @ [l]]"
  have mem: "l' \<in> set (L ! k') \<or> (k' = k \<and> l' = l)" if "k' < length L" "l' \<in> set (?L ! k')" for k' l'
    using that k by (cases "k' = k") (auto simp: nth_list_update)
  have a: "listenerOK T V k' l'" if "k' < length ?L" "l' \<in> set (?L ! k')" for k' l'
    using mem [of k' l'] that wf ok unfolding wfEnv_def by auto
  have b: "l1 = l2" if "k1 < length ?L" "l1 \<in> set (?L ! k1)" "k2 < length ?L" "l2 \<in> set (?L ! k2)"
    "cellOf l1 = cellOf l2" for k1 l1 k2 l2
  proof -
    from that have k12: "k1 < length L" "k2 < length L" by simp_all
    from mem [OF k12(1) that(2)] mem [OF k12(2) that(4)] show ?thesis
    proof (elim disjE conjE)
      assume "l1 \<in> set (L ! k1)" "l2 \<in> set (L ! k2)"
      with wf k12 that(5) show ?thesis unfolding wfEnv_def by blast
    next
      assume "l1 \<in> set (L ! k1)" "l2 = l"
      with fresh [OF k12(1)] that(5) show ?thesis by auto
    next
      assume "l1 = l" "l2 \<in> set (L ! k2)"
      with fresh [OF k12(2)] that(5) show ?thesis by auto
    next
      assume "l1 = l" "l2 = l"
      then show ?thesis by simp
    qed
  qed
  from wf have c: "\<forall>h t. T h = Some t \<longrightarrow> h < n \<and> timerOK T V h t"
    "handleOK T n tt" "handleOK T n ai" "handleOK T n at"
    "\<forall>v h. v < length V \<and> V ! v = Some h \<longrightarrow> h < n"
    unfolding wfEnv_def by blast+
  show ?thesis
    unfolding wfEnv_def using a b c by blast
qed

lemma wfEnv_removeListener:
  assumes wf: "wfEnv L T n V tt ai at"
  shows "wfEnv (L[k := removeAll l (L ! k)]) T n V tt ai at"
  using wf
proof (rule wfEnv_listeners_subset)
  fix k' assume "k' < length L"
  then show "set (L[k := removeAll l (L ! k)] ! k') \<subseteq> set (L ! k')"
    by (cases "k' = k") (auto simp: nth_list_update)
qed simp

lemma callbackOK_clear: "callbackOK T V cb \<Longrightarrow> callbackOK (T(h := None)) V cb"
proof (erule callbackOK_mono)
  fix c h' assume "isBackup (T(h := None)) h'"
  then show "isBackup T h'" by (rule isBackup_clear)
qed simp_all

lemma callbackOK_setNone: "callbackOK T V cb \<Longrightarrow> callbackOK T (V[v := None]) cb"
proof (erule callbackOK_mono)
  fix c assume "c < length V"
  then show "V[v := None] ! c = None \<or> V[v := None] ! c = V ! c \<or>
       (\<exists>h. V[v := None] ! c = Some h \<and> \<not> isBackup T h)"
    by (simp add: nth_update_None)
qed simp_all

lemma wfEnv_vars_fresh:
  "wfEnv L T n V tt ai at \<Longrightarrow> v < length V \<Longrightarrow> V ! v = Some h \<Longrightarrow> h < n"
  unfolding wfEnv_def by blast

lemma wfEnv_timer:
  "wfEnv L T n V tt ai at \<Longrightarrow> T h = Some t \<Longrightarrow> h < n \<and> timerOK T V h t"
  unfolding wfEnv_def by blast

lemma callbackOK_arm:
  assumes wf: "wfEnv L T n V tt ai at" and c: "callbackOK T V c"
  shows "callbackOK (T(n \<mapsto> x)) (V @ W) c"
  using c
proof (rule callbackOK_mono)
  fix c h assume "c < length V" "V ! c = Some h" "isBackup (T(n \<mapsto> x)) h"
  moreover from wfEnv_vars_fresh [OF wf this(1,2)] have "h \<noteq> n" by simp
  ultimately show "isBackup T h" by (simp add: isBackup_def)
qed (auto simp: nth_append)

lemma wfEnv_mark_timer:
  assumes wf: "wfEnv L T n V tt ai at" and cb: "callbackOK T V cb"
  shows "wfEnv L (T(n \<mapsto> Timeout (BackupTimeout cb (length V)) 3000)) (Suc n) (V @ [Some n]) tt ai at"
proof -
  let ?T = "T(n \<mapsto> Timeout (BackupTimeout cb (length V)) 3000)"
  let ?V = "V @ [Some n]"
  show "wfEnv L ?T (Suc n) ?V tt ai at"
    using wf
  proof (rule wfEnv_step)
    fix h t assume "?T h = Some t"
    then show "T h = Some t \<or> n \<le> h \<and> h < Suc n \<and> timerOK ?T ?V h t"
      using callbackOK_arm [OF wf cb, of "Timeout (BackupTimeout cb (length V)) 3000" "[Some n]"]
      by (auto split: if_splits)
  next
    fix k l h' assume "k < length L" "l \<in> set (L ! k)" "V ! cellOf l = Some h'"
    from live_isBackup [OF wf this] have "h' \<noteq> n" by auto
    then show "?T h' = T h'" by simp
  qed (auto simp: nth_append)
qed

lemma wfEnv_mark:
  assumes wf: "wfEnv L T n V tt ai at" and cb: "callbackOK T V cb" and k: "k < length L"
  shows "wfEnv (L[k := L ! k @ [OnTransitionEnd k e cb (length V)]])
           (T(n \<mapsto> Timeout (BackupTimeout cb (length V)) 3000)) (Suc n) (V @ [Some n]) tt ai at"
proof (rule wfEnv_addListener [OF wfEnv_mark_timer [OF wf cb] k])
  show "listenerOK (T(n \<mapsto> Timeout (BackupTimeout cb (length V)) 3000)) (V @ [Some n]) k
          (OnTransitionEnd k e cb (length V))"
    by simp
next
  fix k' l' assume "k' < length L" "l' \<in> set (L ! k')"
  from listener_shape [OF wf this] have "cellOf l' < length V" by blast
  then show "cellOf l' \<noteq> cellOf (OnTransitionEnd k e cb (length V))" by simp
qed

lemma wfEnv_setLoopCell:
  assumes wf: "wfEnv L T n V tt ai at"
    and c: "c < length V" "V ! c = None"
    and fresh: "\<And>k l. k < length L \<Longrightarrow> l \<in> set (L ! k) \<Longrightarrow> cellOf l \<noteq> c"
    and h: "h < n" "\<not> isBackup T h"
  shows "wfEnv L T n (V[c := Some h]) tt ai at"
proof -
  let ?V = "V[c := Some h]"
  have nth: "?V ! v = (if v = c then Some h else V ! v)" if "v < length V" for v
    using that c(1) by (simp add: nth_list_update)
  have cb: "callbackOK T ?V x" if "callbackOK T V x" for x
    using that
  proof (rule callbackOK_mono)
    fix v assume "v < length V"
    then show "?V ! v = None \<or> ?V ! v = V ! v \<or> (\<exists>h. ?V ! v = Some h \<and> \<not> isBackup T h)"
      using h(2) by (simp add: nth)
  qed simp_all
  have t1: "h' < n \<and> timerOK T ?V h' t" if t: "T h' = Some t" for h' t
  proof -
    from wfEnv_timer [OF wf t] have a: "h' < n" "timerOK T V h' t" by simp_all
    from a(2) have "timerOK T ?V h' t"
    proof (rule timerOK_mono)
      fix v assume "v < length V" "V ! v = Some h'"
      with c(2) show "?V ! v = Some h'" by (auto simp: nth)
    qed (simp_all add: cb)
    with a(1) show ?thesis by simp
  qed
  have t3: "h' < n" if "v < length ?V \<and> ?V ! v = Some h'" for v h'
    using that h(1) wfEnv_vars_fresh [OF wf, of v h'] by (auto simp: nth split: if_splits)
  have t4: "listenerOK T ?V k l" if kl: "k < length L \<and> l \<in> set (L ! k)" for k l
  proof -
    from wf kl have ok: "listenerOK T V k l" unfolding wfEnv_def by blast
    from kl fresh [of k l] have ne: "cellOf l \<noteq> c" by simp
    from ok show ?thesis
      by (rule listenerOK_mono) (auto simp: nth ne)
  qed
  from wf have cc: "handleOK T n tt" "handleOK T n ai" "handleOK T n at"
    "\<forall>k l k' l'. k < length L \<and> l \<in> set (L ! k) \<and> k' < length L \<and> l' \<in> set (L ! k')
            \<and> cellOf l = cellOf l' \<longrightarrow> l = l'"
    unfolding wfEnv_def by blast+
  show ?thesis
    unfolding wfEnv_def
    apply (intro conjI allI impI)
    subgoal for h t using t1 [of h t] by simp
    subgoal for h t using t1 [of h t] by simp
    subgoal by (rule cc)
    subgoal by (rule cc)
    subgoal by (rule cc)
    subgoal for v h using t3 [of v h] by simp
    subgoal for k l using t4 [of k l] by simp
    subgoal for k l k' l' using cc(4) by blast
    done
qed

lemma wfEnv_runListener:
  assumes wf: "wfEnv L T n V tt ai at" and k: "k < length L"
    and l: "OnTransitionEnd k e cb v \<in> set (L ! k)" and live: "V ! v = Some h"
  shows "wfEnv (L[k := removeAll (OnTransitionEnd k e cb v) (L ! k)]) (T(h := None)) n V tt ai at"
    and "callbackOK (T(h := None)) V cb"
proof -
  let ?l = "OnTransitionEnd k e cb v"
  let ?L = "L[k := removeAll ?l (L ! k)]"
  from listener_shape [OF wf k l] live
  have th: "T h = Some (Timeout (BackupTimeout cb v) 3000)" by auto
  have wf1: "wfEnv ?L T n V tt ai at"
    using wf by (rule wfEnv_removeListener)
  have inj: "l1 = l2" if "k1 < length L" "l1 \<in> set (L ! k1)" "k2 < length L" "l2 \<in> set (L ! k2)"
    "cellOf l1 = cellOf l2" for k1 l1 k2 l2
    using wf that unfolding wfEnv_def by blast
  show "wfEnv ?L (T(h := None)) n V tt ai at"
    using wf1
  proof (rule wfEnv_step)
    fix k' l' h' assume a: "k' < length ?L" "l' \<in> set (?L ! k')" "V ! cellOf l' = Some h'"
    from a(1) have k': "k' < length L" by simp
    from a(2) k' k have mem: "l' \<in> set (L ! k')" and ne: "l' \<noteq> ?l \<or> k' \<noteq> k"
      by (cases "k' = k"; auto simp: nth_list_update)+
    from listener_shape [OF wf k' mem] a(3) obtain e' cb' where
      sh: "l' = OnTransitionEnd k' e' cb' (cellOf l')"
        "T h' = Some (Timeout (BackupTimeout cb' (cellOf l')) 3000)" by blast
    have "h' \<noteq> h"
    proof
      assume "h' = h"
      with sh(2) th have "cellOf l' = v" by simp
      then have "cellOf l' = cellOf ?l" by simp
      from inj [OF k' mem k l this] have eq: "l' = ?l" .
      with sh(1) have "k' = k" by simp
      with eq ne show False by simp
    qed
    then show "(T(h := None)) h' = T h'" by simp
  qed (auto split: if_splits)
  from wfEnv_timer [OF wf th] have "callbackOK T V cb" by simp
  then show "callbackOK (T(h := None)) V cb"
    by (rule callbackOK_clear)
qed

lemma wfEnv_fire:
  assumes wf: "wfEnv L T n V tt ai at" and t: "T h = Some (Timeout (BackupTimeout cb v) d)"
  shows "wfEnv L (T(h := None)) n (V[v := None]) tt ai at"
    and "callbackOK (T(h := None)) (V[v := None]) cb"
proof -
  from wfEnv_timer [OF wf t] have v: "v < length V" "V ! v = Some h" and cb: "callbackOK T V cb"
    by simp_all
  show "wfEnv L (T(h := None)) n (V[v := None]) tt ai at"
    using wf
  proof (rule wfEnv_step)
    fix c assume "c < length V"
    then show "V[v := None] ! c = V ! c \<or> V[v := None] ! c = None"
      by (auto simp: nth_update_None)
  next
    fix h' cb' v' d'
    assume a: "(T(h := None)) h' = Some (Timeout (BackupTimeout cb' v') d')"
      "v' < length V" "V ! v' = Some h'"
    then have "h' \<noteq> h" by (auto split: if_splits)
    with a(3) v(2) have "v' \<noteq> v" by auto
    with a(2) show "V[v := None] ! v' = V ! v'" by (simp add: nth_update_None)
  next
    fix k l h' assume a: "k < length L" "l \<in> set (L ! k)" "V ! cellOf l = Some h'"
      "V[v := None] ! cellOf l = Some h'"
    from listener_shape [OF wf a(1,2)] a(3) obtain e' cb' where
      sh: "cellOf l < length V" "T h' = Some (Timeout (BackupTimeout cb' (cellOf l)) 3000)" by blast
    from sh(1) a(4) have "cellOf l \<noteq> v" by (auto simp: nth_update_None split: if_splits)
    with sh(2) t have "h' \<noteq> h" by auto
    then show "(T(h := None)) h' = T h'" by simp
  qed (auto split: if_splits)
  from cb show "callbackOK (T(h := None)) (V[v := None]) cb"
    by (intro callbackOK_setNone callbackOK_clear)
qed

subsection \<open>What each function does to the state\<close>

lemma map_update_same: "(map g xs)[k := g (xs ! k)] = map g xs"
proof (cases "k < length xs")
  case True
  then show ?thesis by (metis list_update_id map_update)
next
  case False
  then show ?thesis by (simp add: not_less list_update_beyond)
qed

lemma length_mapIndex [simp]: "length (mapIndex i f xs) = length xs"
  by (induction xs arbitrary: i) simp_all


lemma map_mapIndex_same: "(\<And>i x. g (f i x) = g x) \<Longrightarrow> map g (mapIndex i f xs) = map g xs"
  by (induction xs arbitrary: i) simp_all

lemma contains_add [simp]:
  "classList_contains (classList_add cl d) c = (c = d \<or> classList_contains cl c)"
  by (auto simp: classList_contains_def classList_add_def)

lemma contains_remove [simp]:
  "classList_contains (classList_remove cl d) c = (c \<noteq> d \<and> classList_contains cl c)"
  by (auto simp: classList_contains_def classList_remove_def)

lemma element_ops [simp]:
  "listeners (elAdd c e) = listeners e"
  "listeners (elRemove c e) = listeners e"
  "listeners (resetItem c e) = listeners e"
  "classList (elAdd c e) = classList_add (classList e) c"
  "classList (elRemove c e) = classList_remove (classList e) c"
  by (simp_all add: elAdd_def elRemove_def resetItem_def)

lemma listeners_recalculateItem [simp]:
  "listeners (recalculateItem s selectedIndex flip i e) = listeners e"
  by (simp add: recalculateItem_def Let_def split: option.splits)

lemma resetAllTransitioning_eq:
  "resetAllTransitioning s =
     s\<lparr>items := (case transitioningClass s of None \<Rightarrow> items s
                  | Some tc \<Rightarrow> map (resetItem tc) (items s))\<rparr>"
  by (simp add: resetAllTransitioning_def split: option.splits)

lemma listenersOf_items_only [simp]:
  "listenersOf (resetAllTransitioning s) = listenersOf s"
  "listenersOf (reclauclatePositions a b s) = listenersOf s"
  "listenersOf (updItem k (elAdd c) s) = listenersOf s"
  "listenersOf (updItem k (elRemove c) s) = listenersOf s"
  by (simp_all add: listenersOf_def resetAllTransitioning_eq reclauclatePositions_def updItem_def
      map_mapIndex_same map_update map_update_same [where g = listeners, simplified]
      list_update_same_conv o_def split: option.splits)

lemma length_items_only [simp]:
  "length (items (resetAllTransitioning s)) = length (items s)"
  "length (items (reclauclatePositions a b s)) = length (items s)"
  "length (items (updItem k f s)) = length (items s)"
  by (simp_all add: resetAllTransitioning_eq reclauclatePositions_def updItem_def
      split: option.splits)

lemma debounce_admitted_eq:
  "shouldDebounce s \<Longrightarrow> \<not> transitioning s \<Longrightarrow>
   debounce s =
     (False,
      s\<lparr>transitioning := True,
        timers := (clearHandle (transitioningTimeout s) (timers s))
                    (nextTimer s \<mapsto> Timeout DebounceRelease 3000),
        nextTimer := Suc (nextTimer s),
        transitioningTimeout := Some (nextTimer s)\<rparr>)"
  by (simp add: debounce_def setTimeout_def clearTimeout_def Let_def split: option.splits)

lemma endDebounce_eq:
  "endDebounce s =
     (if shouldDebounce s
      then s\<lparr>timers := clearHandle (transitioningTimeout s) (timers s), transitioning := False\<rparr>
      else s)"
  by (simp add: endDebounce_def clearTimeout_def Let_def split: option.splits)


lemma startAutoTransition_eq:
  "startAutoTransition s =
     s\<lparr>timers := (clearHandle (autoTransitionInterval s) (timers s))
                   (nextTimer s \<mapsto> Interval AutoTick (autoTransitionTime s)),
       nextTimer := Suc (nextTimer s),
       autoTransitionInterval := Some (nextTimer s)\<rparr>"
  by (simp add: startAutoTransition_def setInterval_def clearInterval_def Let_def
      split: option.splits)

lemma stopAutoTransition_eq:
  "stopAutoTransition s =
     s\<lparr>timers := (clearHandle (autoTransitionTimeout s)
                    (clearHandle (autoTransitionInterval s) (timers s)))
                   (nextTimer s \<mapsto> Timeout AutoResume (autoTransitionDelay s)),
       nextTimer := Suc (nextTimer s),
       autoTransitionInterval := None,
       autoTransitionTimeout := Some (nextTimer s)\<rparr>"
  by (simp add: stopAutoTransition_def setTimeout_def clearInterval_def clearTimeout_def Let_def
      split: option.splits)


lemma markTransitioning_undefined:
  "transitioningClass s = Some tc \<Longrightarrow>
   markTransitioning None e cb s = Throw TypeError (s\<lparr>vars := vars s @ [None]\<rparr>)"
  by (simp add: markTransitioning_def newVar_def)

lemma markTransitioning_disabled:
  "transitioningClass s = None \<Longrightarrow> markTransitioning x e cb s = Done s"
  by (simp add: markTransitioning_def)

subsection \<open>Calls that track nothing\<close>

lemma clearHandle_Some: "clearHandle x T h = Some tm \<Longrightarrow> T h = Some tm"
  by (cases x) (auto split: if_splits)

lemma untracked_refl: "untracked A s s"
  by (simp add: untracked_def)

lemma untracked_trans:
  assumes "untracked A s s1" "untracked A s1 s2"
  shows "untracked A s s2"
proof -
  have t: "timers s h = Some tm \<or> task tm = DebounceRelease \<or> task tm = AutoResume"
    if "timers s2 h = Some tm" for h tm
  proof -
    from assms(2) that have "timers s1 h = Some tm \<or> task tm = DebounceRelease \<or> task tm = AutoResume"
      unfolding untracked_def by blast
    with assms(1) show ?thesis unfolding untracked_def by blast
  qed
  have i: "items s2 ! k = items s ! k" if "\<not> A k" for k
    using assms that unfolding untracked_def by simp
  from assms have "transitioningClass s2 = transitioningClass s"
    "length (items s2) = length (items s)"
    "map listeners (items s2) = map listeners (items s)"
    unfolding untracked_def by simp_all
  with t i show ?thesis unfolding untracked_def by blast
qed

lemma untracked_class:
  "untracked A s s' \<Longrightarrow> transitioningClass s = None \<Longrightarrow> transitioningClass s' = None"
  by (simp add: untracked_def)

lemma untracked_debounce: "untracked A s (snd (debounce s))"
proof (cases "shouldDebounce s")
  case False
  then show ?thesis by (simp add: debounce_disabled untracked_refl)
next
  case True
  show ?thesis
  proof (cases "transitioning s")
    case True
    with \<open>shouldDebounce s\<close> show ?thesis by (simp add: debounce_blocked untracked_refl)
  next
    case False
    with True show ?thesis
      by (auto simp: debounce_admitted_eq untracked_def dest: clearHandle_Some split: if_splits)
  qed
qed

lemma untracked_endDebounce: "untracked A s (endDebounce s)"
  by (auto simp: endDebounce_eq untracked_def dest: clearHandle_Some)

lemma untracked_stopAutoTransition: "untracked A s (stopAutoTransition s)"
  by (auto simp: stopAutoTransition_eq untracked_def dest!: clearHandle_Some split: if_splits)

lemma untracked_resetAllTransitioning:
  "transitioningClass s = None \<Longrightarrow> untracked A s (resetAllTransitioning s)"
  by (simp add: resetAllTransitioning_def untracked_refl)

lemma untracked_updateIndicators: "untracked A s (stateOf (updateIndicators i s))"
  by (simp add: updateIndicators_def untracked_def split: option.splits)

lemma untracked_reclauclatePositions: "untracked (\<lambda>k. True) s (reclauclatePositions i f s)"
  by (simp add: reclauclatePositions_def untracked_def map_mapIndex_same)

lemma untracked_markTransitioning:
  "transitioningClass s = None \<Longrightarrow> untracked A s (stateOf (markTransitioning x e cb s))"
  by (simp add: markTransitioning_disabled untracked_refl)

lemma untracked_updItem:
  assumes "A k" "\<And>e. listeners (f e) = listeners e"
  shows "untracked A s (updItem k f s)"
proof -
  have "map listeners ((items s)[k := f (items s ! k)]) = map listeners (items s)"
    by (simp add: map_update assms(2) map_update_same [where g = listeners])
  moreover have "(items s)[k := f (items s ! k)] ! j = items s ! j" if "\<not> A j" for j
    using that assms(1) by (cases "j = k") simp_all
  ultimately show ?thesis
    by (simp add: untracked_def updItem_def)
qed

lemma untracked_refRemove:
  "(\<And>k. x = Some k \<Longrightarrow> A k) \<Longrightarrow> untracked A s (stateOf (refRemove x c s))"
  by (cases x) (simp_all add: refRemove_def untracked_refl untracked_updItem)

lemma untracked_refAdd:
  "(\<And>k. x = Some k \<Longrightarrow> A k) \<Longrightarrow> untracked A s (stateOf (refAdd x c s))"
  by (cases x) (simp_all add: refAdd_def untracked_refl untracked_updItem)

lemma untracked_andThen:
  assumes "untracked A s (stateOf out)"
    and "\<And>s1. transitioningClass s1 = transitioningClass s \<Longrightarrow> untracked A s1 (stateOf (f s1))"
  shows "untracked A s (stateOf (andThen out f))"
proof (cases out)
  case (Done s1)
  with assms(1) have u: "untracked A s s1" by simp
  then have "transitioningClass s1 = transitioningClass s" by (simp add: untracked_def)
  from untracked_trans [OF u assms(2) [OF this]] Done show ?thesis by simp
next
  case (Throw e s1)
  with assms(1) show ?thesis by simp
qed

lemma untracked_chain:
  assumes "\<And>f s1. f \<in> set fs \<Longrightarrow> transitioningClass s1 = transitioningClass s \<Longrightarrow>
             untracked A s1 (stateOf (f s1))"
  shows "untracked A s (stateOf (chain fs s))"
  using assms
proof (induction fs arbitrary: s)
  case Nil
  then show ?case by (simp add: untracked_refl)
next
  case (Cons f fs)
  show ?case
    unfolding chain.simps
  proof (rule untracked_andThen)
    show "untracked A s (stateOf (f s))" by (rule Cons.prems) simp_all
  next
    fix s1 :: state assume c: "transitioningClass s1 = transitioningClass s"
    show "untracked A s1 (stateOf (chain fs s1))"
    proof (rule Cons.IH)
      fix g and s2 :: state assume "g \<in> set fs" "transitioningClass s2 = transitioningClass s1"
      with c show "untracked A s2 (stateOf (g s2))" by (intro Cons.prems) simp_all
    qed
  qed
qed

lemma itemAt_index: "itemAt s i = Some k \<Longrightarrow> int k = i"
  by (auto simp: itemAt_def split: if_splits)

lemma plain_timer_keeps_items:
  assumes "timers s h = Some tm" "task tm = DebounceRelease \<or> task tm = AutoResume"
  shows "items (fireTimer h s) = items s"
proof (cases tm)
  case (Timeout c d)
  with assms show ?thesis
    by (auto simp: fireTimer_def startAutoTransition_eq clearTimeout_def Let_def
        split: option.splits)
next
  case (Interval c d)
  with assms show ?thesis
    by (auto simp: fireTimer_def startAutoTransition_eq clearTimeout_def Let_def
        split: option.splits)
qed

lemma untracked_if:
  "untracked A s (stateOf x) \<Longrightarrow> untracked A s (stateOf y) \<Longrightarrow>
   untracked A s (stateOf (if c then x else y))"
  by simp

lemma untracked_weaken: "untracked A s s' \<Longrightarrow> untracked (\<lambda>k. True) s s'"
  by (simp add: untracked_def)

lemma untracked_chain_from:
  assumes u: "untracked A s s'"
    and fs: "\<And>f s1. f \<in> set fs \<Longrightarrow> transitioningClass s1 = transitioningClass s \<Longrightarrow>
             untracked A s1 (stateOf (f s1))"
  shows "untracked A s (stateOf (chain fs s'))"
proof -
  from u have c: "transitioningClass s' = transitioningClass s" by (simp add: untracked_def)
  have "untracked A s' (stateOf (chain fs s'))"
    by (rule untracked_chain) (simp add: fs c)
  with u show ?thesis by (rule untracked_trans)
qed

lemma untracked_prelude:
  assumes tc: "transitioningClass s = None" and d: "debounce s = (b, s1)"
  shows "untracked A s (if c (resetAllTransitioning s1)
                        then stopAutoTransition (resetAllTransitioning s1)
                        else resetAllTransitioning s1)"
proof -
  from untracked_debounce [of A s] d have u1: "untracked A s s1" by simp
  from u1 tc have tc1: "transitioningClass s1 = None" by (rule untracked_class)
  have u2: "untracked A s1 (resetAllTransitioning s1)"
    by (rule untracked_resetAllTransitioning [OF tc1])
  have u3: "untracked A (resetAllTransitioning s1)
              (if c (resetAllTransitioning s1)
               then stopAutoTransition (resetAllTransitioning s1)
               else resetAllTransitioning s1)"
    by (simp add: untracked_refl untracked_stopAutoTransition)
  show ?thesis by (rule untracked_trans [OF u1 untracked_trans [OF u2 u3]])
qed

lemma untracked_transitionTo:
  assumes tc: "transitioningClass s = None"
  shows "untracked (\<lambda>k. int k = getSelectedIndex s) s (stateOf (transitionTo t s))"
proof (cases "getSelectedIndex s = t")
  case True
  then show ?thesis by (simp add: transitionTo_def untracked_refl)
next
  case ne: False
  obtain b s1 where d: "debounce s = (b, s1)" by (cases "debounce s")
  show ?thesis
  proof (cases b)
    case True
    with ne d untracked_debounce [of "\<lambda>k. int k = getSelectedIndex s" s] show ?thesis
      by (simp add: transitionTo_def)
  next
    case False
    note u = untracked_prelude [OF tc d, of "\<lambda>k. int k = getSelectedIndex s" shouldAutoTransition]
    from u tc have tc3: "transitioningClass
        (if shouldAutoTransition (resetAllTransitioning s1)
         then stopAutoTransition (resetAllTransitioning s1)
         else resetAllTransitioning s1) = None"
      by (rule untracked_class)
    from ne d False show ?thesis
      apply (simp only: transitionTo_def Let_def if_False prod.case bool.case)
      apply (rule untracked_trans [OF u])
      apply (rule untracked_andThen)
       apply (rule untracked_updateIndicators)
      apply (rule untracked_if)
       apply (rule untracked_chain)
       apply (simp only: tc3)
       apply (auto intro!: untracked_markTransitioning untracked_refRemove untracked_refAdd
          dest: itemAt_index)[1]
      apply (rule untracked_chain)
      apply (simp only: tc3)
      apply (auto intro!: untracked_markTransitioning untracked_refRemove untracked_refAdd
          dest: itemAt_index)[1]
      done
  qed
qed

lemma untracked_transitionBackward:
  assumes tc: "transitioningClass s = None"
  shows "untracked (\<lambda>k. True) s (stateOf (transitionBackward auto s))"
proof -
  obtain b s1 where d: "debounce s = (b, s1)" by (cases "debounce s")
  show ?thesis
  proof (cases b)
    case True
    with d untracked_debounce [of "\<lambda>k. True" s] show ?thesis
      by (simp add: transitionBackward_def)
  next
    case False
    note u = untracked_prelude [OF tc d, of "\<lambda>k. True" "\<lambda>s. \<not> auto \<and> shouldAutoTransition s"]
    from u tc have tc3: "transitioningClass
        (if \<not> auto \<and> shouldAutoTransition (resetAllTransitioning s1)
         then stopAutoTransition (resetAllTransitioning s1)
         else resetAllTransitioning s1) = None"
      by (rule untracked_class)
    from d False show ?thesis
      apply (simp only: transitionBackward_def Let_def prod.case bool.case)
      apply (rule untracked_trans [OF u])
      apply (rule untracked_if)
       apply (simp only: stateOf.simps)
       apply (rule untracked_endDebounce)
      apply (rule untracked_andThen)
       apply (rule untracked_updateIndicators)
      apply (rule untracked_chain_from)
       apply (simp add: untracked_refl untracked_reclauclatePositions)
      apply (simp only: tc3)
      apply (auto intro!: untracked_markTransitioning untracked_refRemove untracked_refAdd)[1]
      done
  qed
qed

subsection \<open>The selected index\<close>

lemma contains_resetItem:
  "c \<noteq> tc \<Longrightarrow>
   classList_contains (classList (resetItem tc e)) c = classList_contains (classList e) c"
  by (simp add: resetItem_def)

lemma firstWithClass_reset:
  "tc \<noteq> c \<Longrightarrow> firstWithClass c i (map (resetItem tc) es) = firstWithClass c i es"
  by (induction es arbitrary: i) (simp_all add: contains_resetItem)

lemma getSelectedIndex_reset:
  "transitioningClass s \<noteq> Some (selectedItemClass s) \<Longrightarrow>
   getSelectedIndex (resetAllTransitioning s) = getSelectedIndex s"
  by (cases "transitioningClass s")
     (auto simp: getSelectedIndex_def resetAllTransitioning_eq firstWithClass_reset)

lemma getSelectedIndex_stop [simp]:
  "getSelectedIndex (stopAutoTransition s) = getSelectedIndex s"
  by (simp add: getSelectedIndex_def stopAutoTransition_eq)

lemma hasClass_reset:
  "k < length (items s) \<Longrightarrow> Some c \<noteq> transitioningClass s \<Longrightarrow>
   hasClass (resetAllTransitioning s) k c = hasClass s k c"
  by (cases "transitioningClass s")
     (auto simp: hasClass_def resetAllTransitioning_eq contains_resetItem)

lemma debounce_clear:
  "\<not> transitioning s \<Longrightarrow>
   debounce s =
     (False,
      if shouldDebounce s
      then s\<lparr>transitioning := True,
             timers := (clearHandle (transitioningTimeout s) (timers s))
                         (nextTimer s \<mapsto> Timeout DebounceRelease 3000),
             nextTimer := Suc (nextTimer s),
             transitioningTimeout := Some (nextTimer s)\<rparr>
      else s)"
  by (simp add: debounce_admitted_eq debounce_disabled)

lemma forward_boundary_eq:
  assumes nl: "\<not> loop s"
    and last: "getSelectedIndex s = int (length (items s)) - 1"
    and cls: "transitioningClass s \<noteq> Some (selectedItemClass s)"
    and d: "debounce s = (False, s1)"
    and fr: "items s1 = items s" "loop s1 = loop s" "transitioningClass s1 = transitioningClass s"
      "selectedItemClass s1 = selectedItemClass s"
  shows "transitionForward auto s =
     Done (endDebounce (if \<not> auto \<and> shouldAutoTransition s1
                        then stopAutoTransition (resetAllTransitioning s1)
                        else resetAllTransitioning s1))"
proof -
  have g1: "getSelectedIndex s1 = getSelectedIndex s"
    by (simp add: getSelectedIndex_def fr)
  from cls fr have "transitioningClass s1 \<noteq> Some (selectedItemClass s1)" by simp
  then have g2: "getSelectedIndex (resetAllTransitioning s1) = getSelectedIndex s"
    by (simp add: getSelectedIndex_reset g1)
  have l2: "length (items (resetAllTransitioning s1)) = length (items s)"
    by (simp add: fr)
  have c2: "shouldAutoTransition (resetAllTransitioning s1) = shouldAutoTransition s1"
    "loop (resetAllTransitioning s1) = loop s"
    by (simp_all add: resetAllTransitioning_eq fr)
  have c3: "loop (stopAutoTransition (resetAllTransitioning s1)) = loop s"
    "length (items (stopAutoTransition (resetAllTransitioning s1))) = length (items s)"
    by (simp_all add: stopAutoTransition_eq c2 l2 fr)
  show ?thesis
    using nl last
    by (simp add: transitionForward_def Let_def d g2 l2 c2 c3 fr)
qed


subsection \<open>Spent listeners and the completion of a tracker\<close>











lemma transitionBackward_body:
  "transitionBackward auto s =
     (case debounce s of (True, s1) \<Rightarrow> Done s1
      | (False, s1) \<Rightarrow> backwardBody (prelude (\<not> auto) s1))"
proof (cases "debounce s")
  case (Pair b s1)
  show ?thesis
    unfolding transitionBackward_def backwardBody_def prelude_def Pair
    by (cases b) (simp_all only: Let_def prod.case bool.case)
qed


lemma transitionBackward_entry:
  "\<not> transitioning s \<Longrightarrow> transitionBackward auto s = backwardBody (entry (\<not> auto) s)"
  by (simp add: transitionBackward_body entry_def debounce_clear)



lemma entry_flag:
  assumes "\<not> transitioning s"
  shows "transitioning (entry b s) = shouldDebounce s"
    and "shouldDebounce s \<Longrightarrow> transitioningTimeout (entry b s) \<noteq> None"
  using assms
  by (simp_all add: entry_def prelude_def debounce_clear resetAllTransitioning_eq
      stopAutoTransition_eq Let_def split: option.splits)

lemma classList_remove_idem [simp]:
  "classList_remove (classList_remove cl c) c = classList_remove cl c"
  by (simp add: classList_remove_def removeAll_filter_not_eq)





lemma upt_6: "[0..<6] = [0, 1, 2, 3, 4, 5::nat]"
  by code_simp









section \<open>The claims\<close>

text \<open>
  C3. With debouncing enabled and the transitioning flag set, a call of
  \<open>transitionForward\<close> returns at once and leaves the whole state as it was (no item
  class, indicator or timer changes). With debouncing enabled and the flag clear,
  \<open>debounce\<close> admits the request, sets the flag and arms a timer of 3000 ms whose
  handle it stores and whose callback clears the flag. With debouncing disabled
  \<open>debounce\<close> admits every request and changes nothing.
\<close>

theorem debounce_guard:
  "(shouldDebounce s \<and> transitioning s \<longrightarrow> transitionForward auto s = Done s)
   \<and> (shouldDebounce s \<and> \<not> transitioning s \<longrightarrow>
        (\<exists>s'. debounce s = (False, s') \<and> transitioning s'
            \<and> transitioningTimeout s' = Some (nextTimer s)
            \<and> timers s' (nextTimer s) = Some (Timeout DebounceRelease 3000)
            \<and> \<not> transitioning (fireTimer (nextTimer s) s')))
   \<and> (\<not> shouldDebounce s \<longrightarrow> debounce s = (False, s))"
proof (intro conjI impI)
  assume "shouldDebounce s \<and> transitioning s"
  then show "transitionForward auto s = Done s"
    by (simp add: transitionForward_def debounce_blocked)
next
  assume a: "shouldDebounce s \<and> \<not> transitioning s"
  then show "\<exists>s'. debounce s = (False, s') \<and> transitioning s'
            \<and> transitioningTimeout s' = Some (nextTimer s)
            \<and> timers s' (nextTimer s) = Some (Timeout DebounceRelease 3000)
            \<and> \<not> transitioning (fireTimer (nextTimer s) s')"
    by (simp add: debounce_admitted fireTimer_def)
next
  assume "\<not> shouldDebounce s"
  then show "debounce s = (False, s)"
    by (rule debounce_disabled)
qed

text \<open>The scenario of the specification: five items, debouncing enabled, two calls of
  \<open>transitionForward\<close> in a row. The first sets the flag; the second changes nothing.\<close>

theorem debounce_guard_witness:
  "shouldDebounce (stateOf (transitionForward True (example 5 0 False True True)))
   \<and> transitioning (stateOf (transitionForward True (example 5 0 False True True)))
   \<and> transitionForward True (stateOf (transitionForward True (example 5 0 False True True)))
       = Done (stateOf (transitionForward True (example 5 0 False True True)))"
proof -
  have a: "shouldDebounce (stateOf (transitionForward True (example 5 0 False True True)))"
    by code_simp
  have b: "transitioning (stateOf (transitionForward True (example 5 0 False True True)))"
    by code_simp
  show ?thesis
    using a b
      debounce_guard [of "stateOf (transitionForward True (example 5 0 False True True))" True]
    by simp
qed

text \<open>
  C4, as stated, fails for a manual call. On the page of example.js with three items,
  item 2 selected, looping disabled and auto transition enabled, \<open>transitionForward\<close>
  with \<open>auto = false\<close> at the last index cancels the auto transition interval (timer 1)
  and arms the resume timer (timer 3): timers are mutated.
\<close>

theorem forward_at_last_index_counterexample:
  "\<not> loop (example 3 2 False True True)
   \<and> getSelectedIndex (example 3 2 False True True) = 2
   \<and> timers (example 3 2 False True True) 1 = Some (Interval AutoTick 7500)
   \<and> timers (stateOf (transitionForward False (example 3 2 False True True))) 1 = None
   \<and> timers (stateOf (transitionForward False (example 3 2 False True True))) 3
       = Some (Timeout AutoResume 10000)"
proof -
  have a: "\<not> loop (example 3 2 False True True)"
    by code_simp
  have b: "getSelectedIndex (example 3 2 False True True) = 2"
    by code_simp
  have c: "timers (example 3 2 False True True) 1 = Some (Interval AutoTick 7500)"
    by code_simp
  have d: "timers (stateOf (transitionForward False (example 3 2 False True True))) 1 = None"
    by code_simp
  have e: "timers (stateOf (transitionForward False (example 3 2 False True True))) 3
       = Some (Timeout AutoResume 10000)"
    by code_simp
  show ?thesis
    by (intro conjI) (rule a, rule b, rule c, rule d, rule e)
qed

text \<open>
  C4, as amended. With looping disabled, a call of \<open>transitionForward\<close> that the debounce
  guard admits (the flag is clear), in a state whose selected index is the last one,
  returns normally and leaves every class of every item but the transitioning class
  (so every role tag), every listener, the indicators and the console as they were, and
  the debounce flag clear. Called with \<open>auto = true\<close> (the default), or with auto
  transition disabled, it arms no timer: the timers are those of before, less the
  debounce release timer it armed under the fresh handle and the one the field
  \<open>transitioningTimeout\<close> named, both cleared. Called with \<open>auto = false\<close> and auto
  transition enabled it also suspends the auto transition: the interval is cancelled
  and the resume timer armed. (The selected class is assumed not to be the
  transitioning class.)
\<close>

theorem forward_at_last_index_without_loop:
  assumes nl: "\<not> loop s"
    and last: "getSelectedIndex s = int (length (items s)) - 1"
    and cls: "transitioningClass s \<noteq> Some (selectedItemClass s)"
    and ntr: "\<not> transitioning s"
  shows "\<exists>s'. transitionForward auto s = Done s'
     \<and> indicators s' = indicators s \<and> console s' = console s \<and> uncaught s' = uncaught s
     \<and> \<not> transitioning s'
     \<and> map listeners (items s') = map listeners (items s)
     \<and> (\<forall>k c. k < length (items s) \<and> Some c \<noteq> transitioningClass s \<longrightarrow>
            hasClass s' k c = hasClass s k c)
     \<and> (auto \<or> \<not> shouldAutoTransition s \<longrightarrow>
          (\<forall>h. timers s' h =
                (if shouldDebounce s \<and> (h = nextTimer s \<or> transitioningTimeout s = Some h)
                 then None else timers s h)))
     \<and> (\<not> auto \<and> shouldAutoTransition s \<longrightarrow>
          autoTransitionInterval s' = None
          \<and> (\<exists>h. autoTransitionTimeout s' = Some h
                \<and> timers s' h = Some (Timeout AutoResume (autoTransitionDelay s))))"
proof -
  define s1 where "s1 =
     (if shouldDebounce s
      then s\<lparr>transitioning := True,
             timers := (clearHandle (transitioningTimeout s) (timers s))
                         (nextTimer s \<mapsto> Timeout DebounceRelease 3000),
             nextTimer := Suc (nextTimer s),
             transitioningTimeout := Some (nextTimer s)\<rparr>
      else s)"
  define s' where "s' = endDebounce (if \<not> auto \<and> shouldAutoTransition s1
                        then stopAutoTransition (resetAllTransitioning s1)
                        else resetAllTransitioning s1)"
  have d: "debounce s = (False, s1)"
    using ntr by (simp add: s1_def debounce_clear)
  have fr: "items s1 = items s" "loop s1 = loop s" "transitioningClass s1 = transitioningClass s"
    "selectedItemClass s1 = selectedItemClass s"
    by (simp_all add: s1_def)
  have eq: "transitionForward auto s = Done s'"
    unfolding s'_def by (rule forward_boundary_eq [OF nl last cls d fr])
  have a: "indicators s' = indicators s" "console s' = console s" "uncaught s' = uncaught s"
    by (simp_all add: s'_def s1_def endDebounce_eq stopAutoTransition_eq resetAllTransitioning_eq
        split: option.splits)
  have b: "\<not> transitioning s'"
    using ntr
    by (simp add: s'_def s1_def endDebounce_eq stopAutoTransition_eq resetAllTransitioning_eq
        split: option.splits)
  have it: "items s' = items (resetAllTransitioning s)"
    by (simp add: s'_def s1_def endDebounce_eq stopAutoTransition_eq resetAllTransitioning_eq
        split: option.splits)
  have c: "map listeners (items s') = map listeners (items s)"
    using listenersOf_items_only(1) [of s] by (simp add: it listenersOf_def)
  have e: "hasClass s' k c = hasClass s k c"
    if "k < length (items s) \<and> Some c \<noteq> transitioningClass s" for k c
    using that hasClass_reset [of k s c] by (simp add: hasClass_def it)
  have f: "timers s' h =
                (if shouldDebounce s \<and> (h = nextTimer s \<or> transitioningTimeout s = Some h)
                 then None else timers s h)"
    if "auto \<or> \<not> shouldAutoTransition s" for h
    using that
    by (cases "transitioningTimeout s")
       (auto simp: s'_def s1_def endDebounce_eq resetAllTransitioning_eq split: option.splits)
  have g: "autoTransitionInterval s' = None
          \<and> (\<exists>h. autoTransitionTimeout s' = Some h
                \<and> timers s' h = Some (Timeout AutoResume (autoTransitionDelay s)))"
    if "\<not> auto \<and> shouldAutoTransition s"
    using that
    by (simp add: s'_def s1_def endDebounce_eq stopAutoTransition_eq resetAllTransitioning_eq
        split: option.splits)
  from eq a b c e f g show ?thesis by blast
qed

text \<open>The amended C4 on the page of example.js with three items, item 2 selected and
  looping disabled, for an automatic call.\<close>

theorem forward_at_last_index_without_loop_witness:
  "\<not> loop (example 3 2 False True True)
   \<and> getSelectedIndex (example 3 2 False True True)
       = int (length (items (example 3 2 False True True))) - 1
   \<and> \<not> transitioning (example 3 2 False True True)
   \<and> transitionForward True (example 3 2 False True True)
       = Done (stateOf (transitionForward True (example 3 2 False True True)))
   \<and> indicators (stateOf (transitionForward True (example 3 2 False True True)))
       = indicators (example 3 2 False True True)
   \<and> \<not> transitioning (stateOf (transitionForward True (example 3 2 False True True)))
   \<and> timers (stateOf (transitionForward True (example 3 2 False True True))) 1
       = timers (example 3 2 False True True) 1
   \<and> hasClass (stateOf (transitionForward True (example 3 2 False True True))) 2
        ''slideshow-item-selected''
       = hasClass (example 3 2 False True True) 2 ''slideshow-item-selected''"
proof -
  have a: "\<not> loop (example 3 2 False True True)"
    by code_simp
  have b: "getSelectedIndex (example 3 2 False True True)
       = int (length (items (example 3 2 False True True))) - 1"
    by code_simp
  have c: "transitioningClass (example 3 2 False True True)
       \<noteq> Some (selectedItemClass (example 3 2 False True True))"
    by code_simp
  have d: "\<not> transitioning (example 3 2 False True True)"
    by code_simp
  have n: "nextTimer (example 3 2 False True True) = 2"
    by code_simp
  have tt: "transitioningTimeout (example 3 2 False True True) = None"
    by code_simp
  have tc: "transitioningClass (example 3 2 False True True) = Some ''slideshow-item-transitioning''"
    by code_simp
  have len: "length (items (example 3 2 False True True)) = 3"
    by code_simp
  from forward_at_last_index_without_loop [OF a b c d, of True]
  obtain s' where s': "transitionForward True (example 3 2 False True True) = Done s'"
    "indicators s' = indicators (example 3 2 False True True)"
    "\<not> transitioning s'"
    "\<forall>k c. k < length (items (example 3 2 False True True))
         \<and> Some c \<noteq> transitioningClass (example 3 2 False True True) \<longrightarrow>
            hasClass s' k c = hasClass (example 3 2 False True True) k c"
    "\<forall>h. timers s' h =
        (if shouldDebounce (example 3 2 False True True)
            \<and> (h = nextTimer (example 3 2 False True True)
                \<or> transitioningTimeout (example 3 2 False True True) = Some h)
         then None else timers (example 3 2 False True True) h)"
    by auto
  from s'(1) have st: "stateOf (transitionForward True (example 3 2 False True True)) = s'"
    by simp
  from s'(5) n tt have t1: "timers s' 1 = timers (example 3 2 False True True) 1"
    by simp
  from s'(4) tc len have h2: "hasClass s' 2 ''slideshow-item-selected''
       = hasClass (example 3 2 False True True) 2 ''slideshow-item-selected''"
    by simp
  show ?thesis
    unfolding st using a b d s'(1,2,3) t1 h2 by simp
qed



text \<open>
  C8. \<open>transitionTo k\<close> in a state whose selected index is \<open>k\<close> returns the state as it
  is: no class, no indicator and no timer changes.
\<close>

theorem transitionTo_selected_index:
  "getSelectedIndex s = k \<Longrightarrow> transitionTo k s = Done s"
  by (simp add: transitionTo_def)

theorem transitionTo_selected_index_witness:
  "getSelectedIndex (example 6 2 False True True) = 2
   \<and> transitionTo 2 (example 6 2 False True True) = Done (example 6 2 False True True)"
proof -
  have h: "getSelectedIndex (example 6 2 False True True) = 2"
    by code_simp
  show ?thesis
    using h transitionTo_selected_index [OF h] by simp
qed

text \<open>
  C10, as stated, fails for the loop repair of \<open>transitionForward\<close>. On the page of
  example.js with four items, item 3 selected, looping enabled and no transitioning
  class, \<open>transitionForward\<close> arms timer 3, the loop backup of lines 229-234, which does
  not go through \<open>markTransitioning\<close>. Before it elapses item 3 is previous; after it
  elapses the items 1, 2, 3 are next: the repair has run.
\<close>

theorem forward_loop_repair_without_class:
  "transitioningClass (exampleLoopNoTransitioning 4 3) = None
   \<and> timers (stateOf (transitionForward True (exampleLoopNoTransitioning 4 3))) 3
       = Some (Timeout (ForwardLoopBackup 0) 3000)
   \<and> map (rolesOf (stateOf (transitionForward True (exampleLoopNoTransitioning 4 3)))) [0, 1, 2, 3]
       = [[Selected], [Next], [Next], [Previous]]
   \<and> map (rolesOf (fireTimer 3 (stateOf (transitionForward True (exampleLoopNoTransitioning 4 3)))))
         [0, 1, 2, 3]
       = [[Selected], [Next], [Next], [Next]]"
proof -
  have a: "transitioningClass (exampleLoopNoTransitioning 4 3) = None"
    by code_simp
  have b: "timers (stateOf (transitionForward True (exampleLoopNoTransitioning 4 3))) 3
       = Some (Timeout (ForwardLoopBackup 0) 3000)"
    by code_simp
  have c: "map (rolesOf (stateOf (transitionForward True (exampleLoopNoTransitioning 4 3)))) [0, 1, 2, 3]
       = [[Selected], [Next], [Next], [Previous]]"
    by code_simp
  have d: "map (rolesOf (fireTimer 3 (stateOf (transitionForward True (exampleLoopNoTransitioning 4 3)))))
         [0, 1, 2, 3]
       = [[Selected], [Next], [Next], [Next]]"
    by code_simp
  show ?thesis
    by (intro conjI) (rule a, rule b, rule c, rule d)
qed

text \<open>
  C10, as amended. With no transitioning class configured, \<open>markTransitioning\<close> returns
  the state as it is, for every item (also an undefined one), flag and callback: it
  changes nothing, arms no timer and registers no listener, so nothing holds the
  callback. Hence for \<open>transitionTo\<close> and \<open>transitionBackward\<close>, whose only continuation
  goes through \<open>markTransitioning\<close>: the call adds no listener, and every timer that is
  pending after the call and was not pending before it leaves the items as they are
  when it elapses; \<open>transitionTo\<close> changes no item but the selected one, so the chained
  move never reaches the target, and the loop repair of \<open>transitionBackward\<close> never
  runs. (The loop repair of \<open>transitionForward\<close> has a backup timer of its own and is
  not disabled.)
\<close>

theorem no_transitioning_class_tracks_nothing:
  assumes tc: "transitioningClass s = None"
  shows "markTransitioning item endsDebounce callback s = Done s
    \<and> (\<forall>op. op = transitionTo targetIndex \<or> op = transitionBackward auto \<longrightarrow>
          map listeners (items (stateOf (op s))) = map listeners (items s)
          \<and> (\<forall>h tm. timers (stateOf (op s)) h = Some tm \<and> timers s h \<noteq> Some tm \<longrightarrow>
                items (fireTimer h (stateOf (op s))) = items (stateOf (op s))))
    \<and> (\<forall>k. int k \<noteq> getSelectedIndex s \<longrightarrow>
          items (stateOf (transitionTo targetIndex s)) ! k = items s ! k)"
proof -
  have quiet: "map listeners (items s') = map listeners (items s)
      \<and> (\<forall>h tm. timers s' h = Some tm \<and> timers s h \<noteq> Some tm \<longrightarrow>
            items (fireTimer h s') = items s')"
    if u: "untracked A s s'" for A s'
  proof (intro conjI allI impI)
    from u show "map listeners (items s') = map listeners (items s)"
      by (simp add: untracked_def)
  next
    fix h tm assume a: "timers s' h = Some tm \<and> timers s h \<noteq> Some tm"
    with u have "task tm = DebounceRelease \<or> task tm = AutoResume"
      unfolding untracked_def by blast
    with a show "items (fireTimer h s') = items s'"
      by (intro plain_timer_keeps_items) simp_all
  qed
  have uto: "untracked (\<lambda>k. int k = getSelectedIndex s) s (stateOf (transitionTo targetIndex s))"
    by (rule untracked_transitionTo [OF tc])
  have bw: "untracked (\<lambda>k. True) s (stateOf (transitionBackward auto s))"
    by (rule untracked_transitionBackward [OF tc])
  have 1: "markTransitioning item endsDebounce callback s = Done s"
    by (rule markTransitioning_disabled [OF tc])
  have 2: "map listeners (items (stateOf (op s))) = map listeners (items s)
          \<and> (\<forall>h tm. timers (stateOf (op s)) h = Some tm \<and> timers s h \<noteq> Some tm \<longrightarrow>
                items (fireTimer h (stateOf (op s))) = items (stateOf (op s)))"
    if "op = transitionTo targetIndex \<or> op = transitionBackward auto" for op
    using that quiet [OF uto] quiet [OF bw] by blast
  have 3: "items (stateOf (transitionTo targetIndex s)) ! k = items s ! k"
    if "int k \<noteq> getSelectedIndex s" for k
    using uto that by (simp add: untracked_def)
  from 1 2 3 show ?thesis by blast
qed

text \<open>The amended C10 on the page of example.js with four items, item 0 selected,
  looping enabled and no transitioning class: the backward wrap adds no listener, the
  one timer it arms is the debounce release, and the items are as they were after it
  elapses; \<open>transitionTo 2\<close> leaves item 2 as it was.\<close>

theorem no_transitioning_class_tracks_nothing_witness:
  "transitioningClass (exampleLoopNoTransitioning 4 0) = None
   \<and> markTransitioning (Some 0) False (Some (BackwardSelectedDone True 3))
         (exampleLoopNoTransitioning 4 0)
       = Done (exampleLoopNoTransitioning 4 0)
   \<and> map listeners (items (stateOf (transitionBackward True (exampleLoopNoTransitioning 4 0))))
       = map listeners (items (exampleLoopNoTransitioning 4 0))
   \<and> timers (stateOf (transitionBackward True (exampleLoopNoTransitioning 4 0))) 2
       = Some (Timeout DebounceRelease 3000)
   \<and> items (fireTimer 2 (stateOf (transitionBackward True (exampleLoopNoTransitioning 4 0))))
       = items (stateOf (transitionBackward True (exampleLoopNoTransitioning 4 0)))
   \<and> items (stateOf (transitionTo 2 (exampleLoopNoTransitioning 4 0))) ! 2
       = items (exampleLoopNoTransitioning 4 0) ! 2"
proof -
  have h: "transitioningClass (exampleLoopNoTransitioning 4 0) = None"
    by code_simp
  have t2: "timers (stateOf (transitionBackward True (exampleLoopNoTransitioning 4 0))) 2
       = Some (Timeout DebounceRelease 3000)"
    by code_simp
  have t0: "timers (exampleLoopNoTransitioning 4 0) 2 = None"
    by code_simp
  have g: "getSelectedIndex (exampleLoopNoTransitioning 4 0) = 0"
    by code_simp
  note inst = no_transitioning_class_tracks_nothing [OF h, of "Some 0" False
      "Some (BackwardSelectedDone True 3)" 2 True]
  from inst have a: "markTransitioning (Some 0) False (Some (BackwardSelectedDone True 3))
         (exampleLoopNoTransitioning 4 0) = Done (exampleLoopNoTransitioning 4 0)"
    by blast
  from inst have b: "map listeners (items (stateOf (transitionBackward True (exampleLoopNoTransitioning 4 0))))
       = map listeners (items (exampleLoopNoTransitioning 4 0))"
    by blast
  from inst t2 t0 have c: "items (fireTimer 2 (stateOf (transitionBackward True (exampleLoopNoTransitioning 4 0))))
       = items (stateOf (transitionBackward True (exampleLoopNoTransitioning 4 0)))"
    by (metis option.distinct(1))
  from inst g have d: "items (stateOf (transitionTo 2 (exampleLoopNoTransitioning 4 0))) ! 2
       = items (exampleLoopNoTransitioning 4 0) ! 2"
    by simp
  show ?thesis
    by (intro conjI) (rule h, rule a, rule b, rule t2, rule c, rule d)
qed

text \<open>
  C1. The run in which the completion signal never fires, on the page of example.js
  with five items: after \<open>transitionForward\<close> the outgoing item 0 carries the
  transitioning class and timer 3 is its backup timeout. When that timer elapses the
  item still carries the class; the listener, had the event come, would have removed it.
\<close>

theorem backup_timeout_keeps_transitioning_class:
  "timers (stateOf (transitionForward True (example 5 0 False True True))) 3
     = Some (Timeout (BackupTimeout (Some (ForwardSelectedDone False 1 0)) 1) 3000)
   \<and> hasClass (stateOf (transitionForward True (example 5 0 False True True))) 0
        ''slideshow-item-transitioning''
   \<and> hasClass (fireTimer 3 (stateOf (transitionForward True (example 5 0 False True True)))) 0
        ''slideshow-item-transitioning''
   \<and> \<not> hasClass (transitionend 0 (stateOf (transitionForward True (example 5 0 False True True)))) 0
        ''slideshow-item-transitioning''"
proof -
  have a: "timers (stateOf (transitionForward True (example 5 0 False True True))) 3
     = Some (Timeout (BackupTimeout (Some (ForwardSelectedDone False 1 0)) 1) 3000)"
    by code_simp
  have b: "hasClass (stateOf (transitionForward True (example 5 0 False True True))) 0
        ''slideshow-item-transitioning''"
    by code_simp
  have c: "hasClass (fireTimer 3 (stateOf (transitionForward True (example 5 0 False True True)))) 0
        ''slideshow-item-transitioning''"
    by code_simp
  have d: "\<not> hasClass (transitionend 0 (stateOf (transitionForward True (example 5 0 False True True)))) 0
        ''slideshow-item-transitioning''"
    by code_simp
  show ?thesis
    by (intro conjI) (rule a, rule b, rule c, rule d)
qed

text \<open>
  C9. Calls that raise a \<open>TypeError\<close> to their caller: \<open>transitionForward\<close>,
  \<open>transitionBackward\<close> and \<open>transitionTo\<close> on a slideshow built with no indicator
  sequence (the constructor accepts \<open>null\<close>, \<open>updateIndicators\<close> reads its length), and
  \<open>transitionForward\<close> on markup in which no item is selected.
\<close>

theorem public_operations_raise:
  "errorOf (transitionForward True (exampleNoIndicators 3 0)) = Some TypeError
   \<and> errorOf (transitionBackward True (exampleNoIndicators 3 1)) = Some TypeError
   \<and> errorOf (transitionTo 2 (exampleNoIndicators 3 0)) = Some TypeError
   \<and> errorOf (transitionForward True (exampleNoSelected 3)) = Some TypeError"
proof -
  have a: "errorOf (transitionForward True (exampleNoIndicators 3 0)) = Some TypeError"
    by code_simp
  have b: "errorOf (transitionBackward True (exampleNoIndicators 3 1)) = Some TypeError"
    by code_simp
  have c: "errorOf (transitionTo 2 (exampleNoIndicators 3 0)) = Some TypeError"
    by code_simp
  have d: "errorOf (transitionForward True (exampleNoSelected 3)) = Some TypeError"
    by code_simp
  show ?thesis
    by (intro conjI) (rule a, rule b, rule c, rule d)
qed

end
